theory Spec2Isabelle
  imports Complex_Main "HOL-Library.Word" "HOL-Library.AList"
begin

section \<open>Python values and exceptions\<close>

text \<open>
  The two programs are \<^verbatim>\<open>qdrant_indexer.py\<close> (the indexing pipeline) and
  \<^verbatim>\<open>qdrant_retriever.py\<close> (the retrieval service). A Python \<^verbatim>\<open>str\<close> is a list of
  characters, one \<^typ>\<open>char\<close> per code point (code points up to 255 are representable);
  a \<^verbatim>\<open>bytes\<close> object is a list of bytes, one \<^typ>\<open>char\<close> per byte. Every exception
  the code can meet on a modelled path is a value of \<open>py_error\<close>.
\<close>

datatype py_error =
    ValueError
  | KeyError
  | AttributeError
  | ValidationError
  | JSONDecodeError
  | ObjectStoreError
  | PdfReadError
  | EmbeddingError
  | UnexpectedResponse

text \<open>
  JSON-like values: what a payload dictionary of the vector store holds. A dictionary
  is an association list in insertion order with string keys.
\<close>

datatype pyval =
    PNone
  | PBool bool
  | PInt int
  | PFloat real
  | PStr string
  | PList "pyval list"
  | PDict "(string \<times> pyval) list"

section \<open>The indexer: \<^verbatim>\<open>qdrant_indexer.py\<close>\<close>

subsection \<open>Configuration\<close>

definition BUCKET_NAME :: string where
  "BUCKET_NAME = ''index''"

definition CHUNK_SIZE :: int where
  "CHUNK_SIZE = 500"

subsection \<open>The chunker\<close>

text \<open>
  \<^verbatim>\<open>range(i, stop, step)\<close> for a positive step, as the list of its values. (Python raises
  ValueError for step 0 and yields nothing for a negative step when \<open>i < stop\<close>; the caller
  below decides those cases before it comes here.)
\<close>

function range_step :: "nat \<Rightarrow> nat \<Rightarrow> nat \<Rightarrow> nat list" where
  "range_step i stop step =
     (if step = 0 \<or> stop \<le> i then [] else i # range_step (i + step) stop step)"
  by pat_completeness auto
termination
  by (relation "measure (\<lambda>(i, stop, step). stop - i)") auto

declare range_step.simps [simp del]

text \<open>The slice \<^verbatim>\<open>xs[i:j]\<close> for \<open>0 \<le> i \<le> j\<close>.\<close>

definition slice :: "'a list \<Rightarrow> nat \<Rightarrow> nat \<Rightarrow> 'a list" where
  "slice xs i j = take (j - i) (drop i xs)"

text \<open>
  \<^verbatim>\<open>
  def split_text_into_chunks(text, chunk_size=CHUNK_SIZE):
      if not text:
          return []
      chunks = []
      for i in range(0, len(text), chunk_size):
          chunks.append(text[i:i + chunk_size])
      return chunks
  \<close>
  With a non-empty text, \<^verbatim>\<open>range\<close> raises ValueError for \<open>chunk_size = 0\<close> and is empty
  for a negative \<open>chunk_size\<close>.
\<close>

definition split_text_into_chunks :: "'a list \<Rightarrow> int \<Rightarrow> py_error + 'a list list" where
  "split_text_into_chunks text chunk_size =
     (if text = [] then Inr []
      else if chunk_size = 0 then Inl ValueError
      else if chunk_size < 0 then Inr []
      else Inr (map (\<lambda>i. slice text i (i + nat chunk_size))
                    (range_step 0 (length text) (nat chunk_size))))"

subsection \<open>Hashes and record identifiers\<close>

text \<open>
  \<^verbatim>\<open>hexdigest()\<close> of an MD5 digest: the 128-bit digest written as 32 lower-case
  hexadecimal digits, most significant first. The MD5 function itself belongs to
  \<^verbatim>\<open>hashlib\<close> and is a parameter of the model (\<open>md5\<close> in the environment below).
\<close>

definition hexchar :: "nat \<Rightarrow> char" where
  "hexchar d = ''0123456789abcdef'' ! (d mod 16)"

fun to_hex :: "nat \<Rightarrow> nat \<Rightarrow> string" where
  "to_hex 0 n = []"
| "to_hex (Suc k) n = to_hex k (n div 16) @ [hexchar n]"

definition hexdigest :: "128 word \<Rightarrow> string" where
  "hexdigest d = to_hex 32 (unat d)"

text \<open>
  \<^verbatim>\<open>int(s, 16)\<close> on a string of hexadecimal digits; ValueError on an empty string or on
  any other character. (Python also accepts a sign, a \<^verbatim>\<open>0x\<close> prefix, underscores and
  surrounding blanks, none of which a hex digest contains.)
\<close>

definition hex_val :: "char \<Rightarrow> nat option" where
  "hex_val c =
     (let n = (of_char c :: nat) in
      if 48 \<le> n \<and> n \<le> 57 then Some (n - 48)
      else if 97 \<le> n \<and> n \<le> 102 then Some (n - 87)
      else if 65 \<le> n \<and> n \<le> 70 then Some (n - 55)
      else None)"

fun int_base16_acc :: "nat \<Rightarrow> string \<Rightarrow> nat option" where
  "int_base16_acc acc [] = Some acc"
| "int_base16_acc acc (c # cs) =
     (case hex_val c of None \<Rightarrow> None | Some d \<Rightarrow> int_base16_acc (acc * 16 + d) cs)"

definition int_base16 :: "string \<Rightarrow> py_error + nat" where
  "int_base16 s =
     (if s = [] then Inl ValueError
      else case int_base16_acc 0 s of None \<Rightarrow> Inl ValueError | Some n \<Rightarrow> Inr n)"

text \<open>\<^verbatim>\<open>str(i)\<close> for a non-negative integer: its decimal digits.\<close>

definition digit_char :: "nat \<Rightarrow> char" where
  "digit_char d = ''0123456789'' ! (d mod 10)"

function str_nat :: "nat \<Rightarrow> string" where
  "str_nat n = (if n < 10 then [digit_char n] else str_nat (n div 10) @ [digit_char n])"
  by pat_completeness auto
termination
  by (relation "measure id") auto

declare str_nat.simps [simp del]

text \<open>
  \<^verbatim>\<open>s.encode()\<close>: UTF-8. A code point below 128 is one byte; a code point from 128 to
  255 is the two bytes \<open>0xC0 + c div 64\<close> and \<open>0x80 + c mod 64\<close>.
\<close>

definition utf8_char :: "char \<Rightarrow> string" where
  "utf8_char c =
     (let n = (of_char c :: nat) in
      if n < 128 then [c] else [char_of (192 + n div 64), char_of (128 + n mod 64)])"

definition utf8_encode :: "string \<Rightarrow> string" where
  "utf8_encode s = concat (map utf8_char s)"

subsection \<open>The collaborators\<close>

text \<open>
  The object store, the PDF reader, the embedding model, the clock and the vector store's
  failures are outside the program. The environment fixes what they answer:
  \<^item> \<open>md5 b\<close>: the MD5 digest of the bytes \<open>b\<close>;
  \<^item> \<open>pdf_reader b\<close>: the texts that \<^verbatim>\<open>page.extract_text()\<close> returns for the pages of
    \<^verbatim>\<open>PdfReader(b)\<close>, or \<open>None\<close> when the reader raises;
  \<^item> \<open>encode s\<close>: \<^verbatim>\<open>embedding_model.encode(s).tolist()\<close>, or \<open>None\<close> when the model
    raises;
  \<^item> \<open>time_time n\<close>: what the \<open>n\<close>-th call of \<^verbatim>\<open>time.time()\<close> returns;
  \<^item> \<open>upsert_fails n\<close>: whether the vector store rejects the \<open>n\<close>-th upsert call.
\<close>

record env =
  md5 :: "string \<Rightarrow> 128 word"
  pdf_reader :: "string \<Rightarrow> string list option"
  encode :: "string \<Rightarrow> real list option"
  time_time :: "nat \<Rightarrow> real"
  upsert_fails :: "nat \<Rightarrow> bool"

text \<open>\<^verbatim>\<open>PointStruct(id=chunk_id, vector=embedding, payload=payload)\<close>\<close>

record PointStruct =
  point_id :: nat
  vector :: "real list"
  point_payload :: "(string \<times> pyval) list"

text \<open>An entry of \<^verbatim>\<open>processed_files\<close>: \<^verbatim>\<open>{"hash": ..., "last_indexed": ...}\<close>.\<close>

record entry =
  hash :: string
  last_indexed :: real

text \<open>
  The file \<^verbatim>\<open>processed_files.json\<close>: absent, present with contents that
  \<^verbatim>\<open>json.load\<close> rejects, or present with a dictionary of entries (what
  \<^verbatim>\<open>save_processed_files\<close> writes), in insertion order.
\<close>

datatype tracker_file =
    Absent
  | Unparseable
  | Stored "(string \<times> entry) list"

text \<open>
  The state the pipeline works on: the bucket's objects (name and bytes, in listing
  order), the collection of the vector store (whether it exists, and its points by
  identifier), the number of upsert calls made and the batches the store has accepted, in
  order, the tracker file, and the number of \<^verbatim>\<open>time.time()\<close> calls made.
\<close>

record world =
  bucket_exists :: bool
  objects :: "(string \<times> string) list"
  collection_exists :: bool
  points :: "(nat \<times> PointStruct) list"
  upsert_calls :: nat
  upsert_log :: "PointStruct list list"
  tracker :: tracker_file
  clock_calls :: nat

definition get_object :: "world \<Rightarrow> string \<Rightarrow> py_error + string" where
  "get_object w file_name =
     (case map_of (objects w) file_name of
        None \<Rightarrow> Inl ObjectStoreError
      | Some data \<Rightarrow> Inr data)"

definition time_now :: "env \<Rightarrow> world \<Rightarrow> real \<times> world" where
  "time_now e w = (time_time e (clock_calls w), w\<lparr>clock_calls := Suc (clock_calls w)\<rparr>)"

text \<open>
  \<^verbatim>\<open>qdrant_client.upsert(collection_name=COLLECTION_NAME, points=points)\<close>: the call is
  counted; when the store rejects it (or the collection does not exist) it raises and
  nothing is stored; otherwise every point replaces the point of the same identifier.
\<close>

definition upsert :: "env \<Rightarrow> PointStruct list \<Rightarrow> world \<Rightarrow> (py_error \<times> world) + world" where
  "upsert e batch w =
     (let w1 = w\<lparr>upsert_calls := Suc (upsert_calls w)\<rparr> in
      if upsert_fails e (upsert_calls w) \<or> \<not> collection_exists w then Inl (UnexpectedResponse, w1)
      else Inr (w1\<lparr>points := fold (\<lambda>p ps. AList.update (point_id p) p ps) batch (points w),
                   upsert_log := upsert_log w @ [batch]\<rparr>))"

subsection \<open>The change tracker\<close>

definition get_file_hash :: "env \<Rightarrow> string \<Rightarrow> string" where
  "get_file_hash e file_stream = hexdigest (md5 e file_stream)"

text \<open>
  \<^verbatim>\<open>
  def load_processed_files():
      if os.path.exists(PROCESSED_FILES_PATH):
          with open(PROCESSED_FILES_PATH, 'r') as f:
              return json.load(f)
      return {}
  \<close>
\<close>

definition load_processed_files :: "world \<Rightarrow> py_error + (string \<times> entry) list" where
  "load_processed_files w =
     (case tracker w of
        Absent \<Rightarrow> Inr []
      | Unparseable \<Rightarrow> Inl JSONDecodeError
      | Stored processed_files \<Rightarrow> Inr processed_files)"

definition save_processed_files :: "(string \<times> entry) list \<Rightarrow> world \<Rightarrow> world" where
  "save_processed_files processed_files w = w\<lparr>tracker := Stored processed_files\<rparr>"

text \<open>
  The condition of line 144, negated: \<^verbatim>\<open>not FORCE_REINDEX and file_name in processed_files
  and processed_files[file_name]["hash"] == file_hash\<close> is the case in which the document is
  skipped.
\<close>

definition should_process :: "bool \<Rightarrow> (string \<times> entry) list \<Rightarrow> string \<Rightarrow> string \<Rightarrow> bool" where
  "should_process FORCE_REINDEX processed_files file_name file_hash =
     (\<not> (\<not> FORCE_REINDEX \<and>
         (case map_of processed_files file_name of
            None \<Rightarrow> False
          | Some en \<Rightarrow> hash en = file_hash)))"

subsection \<open>Text extraction\<close>

text \<open>
  \<^verbatim>\<open>str.isspace\<close> on one character, for the code points up to 255: the blank and
  the controls 9 to 13 and 28 to 31, the next-line control 133 and the no-break space 160.
\<close>

definition isspace :: "char \<Rightarrow> bool" where
  "isspace c =
     (let n = (of_char c :: nat) in
      (9 \<le> n \<and> n \<le> 13) \<or> (28 \<le> n \<and> n \<le> 32) \<or> n = 133 \<or> n = 160)"

definition strip :: "string \<Rightarrow> string" where
  "strip s = rev (dropWhile isspace (rev (dropWhile isspace s)))"

text \<open>
  \<^verbatim>\<open>
  def extract_text_from_pdf(file_stream):
      reader = PdfReader(file_stream)
      text = ""
      for i, page in enumerate(reader.pages):
          page_text = page.extract_text()
          if page_text:
              text += page_text + " "
      return text.strip(), len(reader.pages)
  \<close>
\<close>

definition extract_text_from_pdf :: "env \<Rightarrow> string \<Rightarrow> py_error + (string \<times> nat)" where
  "extract_text_from_pdf e file_stream =
     (case pdf_reader e file_stream of
        None \<Rightarrow> Inl PdfReadError
      | Some pages \<Rightarrow>
          Inr (strip (foldl (\<lambda>text page_text.
                               if page_text \<noteq> [] then text @ page_text @ '' '' else text)
                            [] pages),
               length pages))"

text \<open>
  \<^verbatim>\<open>str.lower\<close> on one character, for the code points up to 255: the letters A to Z and
  the capital letters 192 to 222 (but the multiplication sign 215) move up by 32.
\<close>

definition lower_char :: "char \<Rightarrow> char" where
  "lower_char c =
     (let n = (of_char c :: nat) in
      if (65 \<le> n \<and> n \<le> 90) \<or> (192 \<le> n \<and> n \<le> 222 \<and> n \<noteq> 215) then char_of (n + 32) else c)"

definition lower :: "string \<Rightarrow> string" where
  "lower s = map lower_char s"

definition endswith :: "string \<Rightarrow> string \<Rightarrow> bool" where
  "endswith s suffix = (length suffix \<le> length s \<and> drop (length s - length suffix) s = suffix)"

subsection \<open>Indexing one document\<close>

text \<open>
  The three \<^verbatim>\<open>return\<close> statements that leave \<^verbatim>\<open>index_document\<close> early are the skipped
  outcomes; the end of the \<^verbatim>\<open>try\<close> block is \<open>Indexed\<close>; the \<^verbatim>\<open>except Exception\<close>
  handler is \<open>Failed\<close>, with the exception it caught.
\<close>

datatype skip_reason = Unchanged | Unsupported | NoChunks

datatype outcome = Skipped skip_reason | Indexed | Failed py_error

text \<open>
  \<^verbatim>\<open>chunk_id = int(hashlib.md5(f"{file_name}-{i}".encode()).hexdigest()[:16], 16)\<close>
\<close>

definition chunk_id :: "env \<Rightarrow> string \<Rightarrow> nat \<Rightarrow> py_error + nat" where
  "chunk_id e file_name i =
     int_base16 (take 16 (hexdigest (md5 e (utf8_encode (file_name @ ''-'' @ str_nat i)))))"

definition make_metadata :: "string \<Rightarrow> nat \<Rightarrow> (string \<times> pyval) list" where
  "make_metadata file_name page_count =
     [(''file_name'', PStr file_name),
      (''mime_type'', PStr ''application/pdf''),
      (''page_count'', PInt (int page_count)),
      (''source'', PStr (''minio://'' @ BUCKET_NAME @ ''/'' @ file_name))]"

definition make_payload ::
  "string \<Rightarrow> (string \<times> pyval) list \<Rightarrow> nat \<Rightarrow> nat \<Rightarrow> real \<Rightarrow> (string \<times> pyval) list" where
  "make_payload chunk metadata i total_chunks now =
     [(''text'', PStr chunk),
      (''metadata'', PDict metadata),
      (''chunk_index'', PInt (int i)),
      (''total_chunks'', PInt (int total_chunks)),
      (''indexed_at'', PFloat now)]"

text \<open>
  The loop \<^verbatim>\<open>for i, chunk in enumerate(text_chunks)\<close> of \<^verbatim>\<open>index_document\<close>, over
  the pairs still to come, with the pending \<^verbatim>\<open>points\<close> and the state. An exception
  leaves the loop with the state reached so far.
  \<^verbatim>\<open>
      embedding = embedding_model.encode(chunk).tolist()
      chunk_id = int(hashlib.md5(f"{file_name}-{i}".encode()).hexdigest()[:16], 16)
      payload = {"text": chunk, "metadata": metadata, "chunk_index": i,
                 "total_chunks": len(text_chunks), "indexed_at": time.time()}
      points.append(PointStruct(id=chunk_id, vector=embedding, payload=payload))
      if len(points) >= 100:
          qdrant_client.upsert(collection_name=COLLECTION_NAME, points=points)
          points = []
  \<close>
\<close>

fun upload_loop ::
  "env \<Rightarrow> string \<Rightarrow> (string \<times> pyval) list \<Rightarrow> nat \<Rightarrow> (nat \<times> string) list \<Rightarrow>
   PointStruct list \<Rightarrow> world \<Rightarrow> (py_error \<times> world) + (PointStruct list \<times> world)" where
  "upload_loop e file_name metadata total_chunks [] pts w = Inr (pts, w)"
| "upload_loop e file_name metadata total_chunks ((i, chunk) # rest) pts w =
     (case encode e chunk of
        None \<Rightarrow> Inl (EmbeddingError, w)
      | Some embedding \<Rightarrow>
     (case chunk_id e file_name i of
        Inl err \<Rightarrow> Inl (err, w)
      | Inr cid \<Rightarrow>
          (let (now, w1) = time_now e w;
               payload = make_payload chunk metadata i total_chunks now;
               pts1 = pts @ [\<lparr>point_id = cid, vector = embedding, point_payload = payload\<rparr>]
           in if 100 \<le> length pts1 then
                (case upsert e pts1 w1 of
                   Inl err \<Rightarrow> Inl err
                 | Inr w2 \<Rightarrow> upload_loop e file_name metadata total_chunks rest [] w2)
              else upload_loop e file_name metadata total_chunks rest pts1 w1)))"

text \<open>
  Lines 172 to 203 of \<^verbatim>\<open>index_document\<close>: the loop, started with no pending point,
  and then the upload of the points that remain.
  \<^verbatim>\<open>
      if points:
          qdrant_client.upsert(collection_name=COLLECTION_NAME, points=points)
  \<close>
\<close>

definition upload_points ::
  "env \<Rightarrow> string \<Rightarrow> (string \<times> pyval) list \<Rightarrow> string list \<Rightarrow> world \<Rightarrow> (py_error \<times> world) + world" where
  "upload_points e file_name metadata text_chunks w =
     (case upload_loop e file_name metadata (length text_chunks)
             (enumerate 0 text_chunks) [] w of
        Inl (err, w1) \<Rightarrow> Inl (err, w1)
      | Inr (pts, w1) \<Rightarrow> (if pts \<noteq> [] then upsert e pts w1 else Inr w1))"

text \<open>
  \<^verbatim>\<open>index_document(file_name)\<close>, with the constant \<^verbatim>\<open>FORCE_REINDEX\<close> as a parameter
  (the source sets it to \<^verbatim>\<open>True\<close>; incremental mode is \<^verbatim>\<open>False\<close>).
\<close>

definition index_document :: "env \<Rightarrow> bool \<Rightarrow> string \<Rightarrow> world \<Rightarrow> outcome \<times> world" where
  "index_document e FORCE_REINDEX file_name w =
     (case get_object w file_name of
        Inl err \<Rightarrow> (Failed err, w)
      | Inr file_stream \<Rightarrow>
     (let file_hash = get_file_hash e file_stream in
     (case load_processed_files w of
        Inl err \<Rightarrow> (Failed err, w)
      | Inr processed_files \<Rightarrow>
     (if \<not> should_process FORCE_REINDEX processed_files file_name file_hash
      then (Skipped Unchanged, w)
      else if \<not> endswith (lower file_name) ''.pdf'' then (Skipped Unsupported, w)
      else
     (case extract_text_from_pdf e file_stream of
        Inl err \<Rightarrow> (Failed err, w)
      | Inr (text, page_count) \<Rightarrow>
     (let metadata = make_metadata file_name page_count in
     (case split_text_into_chunks text CHUNK_SIZE of
        Inl err \<Rightarrow> (Failed err, w)
      | Inr text_chunks \<Rightarrow>
     (if text_chunks = [] then (Skipped NoChunks, w)
      else
     (case upload_points e file_name metadata text_chunks w of
        Inl (err, w2) \<Rightarrow> (Failed err, w2)
      | Inr w2 \<Rightarrow>
     (let (now, w3) = time_now e w2 in
      (Indexed,
       save_processed_files
         (AList.update file_name \<lparr>hash = file_hash, last_indexed = now\<rparr> processed_files)
         w3)))))))))))"

subsection \<open>Indexing the bucket\<close>

text \<open>
  \<^verbatim>\<open>reset_collection\<close> deletes the collection if it is there and creates it empty;
  \<^verbatim>\<open>ensure_collection_exists\<close> creates it only if it is not there. (The store is taken to
  be reachable for these administrative calls.)
\<close>

definition reset_collection :: "world \<Rightarrow> world" where
  "reset_collection w = w\<lparr>collection_exists := True, points := []\<rparr>"

definition ensure_collection_exists :: "world \<Rightarrow> world" where
  "ensure_collection_exists w =
     (if \<not> collection_exists w then w\<lparr>collection_exists := True, points := []\<rparr> else w)"

text \<open>The loop \<^verbatim>\<open>for obj in objects: index_document(obj.object_name)\<close>.\<close>

fun index_documents :: "env \<Rightarrow> bool \<Rightarrow> string list \<Rightarrow> world \<Rightarrow> outcome list \<times> world" where
  "index_documents e FORCE_REINDEX [] w = ([], w)"
| "index_documents e FORCE_REINDEX (name # names) w =
     (let (out, w1) = index_document e FORCE_REINDEX name w;
          (outs, w2) = index_documents e FORCE_REINDEX names w1
      in (out # outs, w2))"

definition index_all_documents :: "env \<Rightarrow> bool \<Rightarrow> world \<Rightarrow> outcome list \<times> world" where
  "index_all_documents e FORCE_REINDEX w =
     (if \<not> bucket_exists w then ([], w)
      else
        (let w1 = (if FORCE_REINDEX then reset_collection w else ensure_collection_exists w)
         in index_documents e FORCE_REINDEX (map fst (objects w1)) w1))"

section \<open>The retrieval service: \<^verbatim>\<open>qdrant_retriever.py\<close>\<close>

definition collection_name :: string where
  "collection_name = ''documents''"

text \<open>The request and response models, and a hit of the vector store as the code reads it.\<close>

record QueryRequest =
  query :: string
  limit :: "int option"
  threshold :: "real option"

record ScoredPoint =
  score :: real
  payload :: "(string \<times> pyval) list option"

record DocumentChunk =
  "text" :: string
  file_name :: string
  score :: real
  page_count :: "int option"
  chunk_index :: "int option"
  total_chunks :: "int option"

record QueryResponse =
  documents :: "DocumentChunk list"
  query :: string
  took_ms :: real

text \<open>
  The two handlers at the end of \<^verbatim>\<open>retrieve_docs\<close> raise \<^verbatim>\<open>HTTPException\<close> with status
  500 and one of two messages.
\<close>

datatype detail = Qdrant_search_error | Internal_server_error

record HTTPException =
  status_code :: nat
  detail :: detail

text \<open>
  What the service calls outside itself:
  \<^item> \<open>embed q\<close>: \<^verbatim>\<open>embedding_model.encode(q).tolist()\<close>, or the exception it raises;
  \<^item> \<open>search c v l t\<close>: \<^verbatim>\<open>qdrant_client.search(collection_name=c, query_vector=v,
    limit=l, score_threshold=t)\<close>, the hits in the order the store returns them, or the
    exception it raises;
  \<^item> \<open>validate_str\<close> and \<open>validate_int\<close>: how the \<^verbatim>\<open>pydantic\<close> model turns a value into a
    field of type \<^verbatim>\<open>str\<close> or \<^verbatim>\<open>int\<close>, \<open>None\<close> when it raises a validation error (which
    values other than strings and integers it converts depends on the library's version);
  \<^item> \<open>clock n\<close>: what the \<open>n\<close>-th call of \<^verbatim>\<open>time.time()\<close> in the request returns.
\<close>

record services =
  embed :: "string \<Rightarrow> py_error + real list"
  search :: "string \<Rightarrow> real list \<Rightarrow> int option \<Rightarrow> real option \<Rightarrow> py_error + ScoredPoint list"
  validate_str :: "pyval \<Rightarrow> string option"
  validate_int :: "pyval \<Rightarrow> int option"
  clock :: "nat \<Rightarrow> real"

text \<open>\<^verbatim>\<open>d.get(key, default)\<close> on a dictionary.\<close>

definition dict_get :: "(string \<times> pyval) list \<Rightarrow> string \<Rightarrow> pyval \<Rightarrow> pyval" where
  "dict_get d key dflt = (case map_of d key of None \<Rightarrow> dflt | Some v \<Rightarrow> v)"

text \<open>A field of type \<^verbatim>\<open>Optional[int]\<close>: \<^verbatim>\<open>None\<close> stays, anything else must be an integer.\<close>

definition validate_optional_int :: "services \<Rightarrow> pyval \<Rightarrow> int option option" where
  "validate_optional_int s v =
     (case v of
        PNone \<Rightarrow> Some None
      | _ \<Rightarrow> (case validate_int s v of None \<Rightarrow> None | Some i \<Rightarrow> Some (Some i)))"

text \<open>
  The body of the inner \<^verbatim>\<open>try\<close> for one hit, in the order Python evaluates it:
  \<^verbatim>\<open>
      metadata = hit.payload.get("metadata", {})
      document = DocumentChunk(
          text=hit.payload["text"],
          file_name=metadata.get("file_name", "Unknown"),
          score=float(hit.score),
          page_count=metadata.get("page_count"),
          chunk_index=hit.payload.get("chunk_index"),
          total_chunks=hit.payload.get("total_chunks"))
  \<close>
  \<^verbatim>\<open>hit.payload\<close> may be \<^verbatim>\<open>None\<close>, and \<^verbatim>\<open>metadata\<close> any value: \<^verbatim>\<open>.get\<close> on anything
  but a dictionary raises AttributeError. A missing \<^verbatim>\<open>"text"\<close> raises KeyError. The
  constructor validates the fields last.
\<close>

definition make_document :: "services \<Rightarrow> ScoredPoint \<Rightarrow> py_error + DocumentChunk" where
  "make_document s hit =
     (case payload hit of
        None \<Rightarrow> Inl AttributeError
      | Some pl \<Rightarrow>
     (let metadata = dict_get pl ''metadata'' (PDict []) in
     (case map_of pl ''text'' of
        None \<Rightarrow> Inl KeyError
      | Some text_v \<Rightarrow>
     (case metadata of
        PDict md \<Rightarrow>
          (let file_name_v = dict_get md ''file_name'' (PStr ''Unknown'');
               page_count_v = dict_get md ''page_count'' PNone;
               chunk_index_v = dict_get pl ''chunk_index'' PNone;
               total_chunks_v = dict_get pl ''total_chunks'' PNone
           in
             (case validate_str s text_v of
                None \<Rightarrow> Inl ValidationError
              | Some t \<Rightarrow>
             (case validate_str s file_name_v of
                None \<Rightarrow> Inl ValidationError
              | Some f \<Rightarrow>
             (case validate_optional_int s page_count_v of
                None \<Rightarrow> Inl ValidationError
              | Some pc \<Rightarrow>
             (case validate_optional_int s chunk_index_v of
                None \<Rightarrow> Inl ValidationError
              | Some ci \<Rightarrow>
             (case validate_optional_int s total_chunks_v of
                None \<Rightarrow> Inl ValidationError
              | Some tc \<Rightarrow>
                  Inr \<lparr>text = t, file_name = f, score = ScoredPoint.score hit,
                       page_count = pc, chunk_index = ci, total_chunks = tc\<rparr>))))))
      | _ \<Rightarrow> Inl AttributeError))))"

text \<open>
  The loop \<^verbatim>\<open>for hit in search_results\<close>: a KeyError is caught, logged, and the loop goes
  on; any other exception leaves the loop.
\<close>

fun process_hits :: "services \<Rightarrow> ScoredPoint list \<Rightarrow> DocumentChunk list \<Rightarrow> py_error + DocumentChunk list" where
  "process_hits s [] docs = Inr docs"
| "process_hits s (hit # hits) docs =
     (case make_document s hit of
        Inr document \<Rightarrow> process_hits s hits (docs @ [document])
      | Inl KeyError \<Rightarrow> process_hits s hits docs
      | Inl err \<Rightarrow> Inl err)"

text \<open>The outer \<^verbatim>\<open>try\<close> block of \<^verbatim>\<open>retrieve_docs\<close>, and then its two handlers.\<close>

definition retrieve_body :: "services \<Rightarrow> QueryRequest \<Rightarrow> py_error + QueryResponse" where
  "retrieve_body s request =
     (let start_time = clock s 0 in
     (case embed s (QueryRequest.query request) of
        Inl err \<Rightarrow> Inl err
      | Inr query_embedding \<Rightarrow>
     (case search s collection_name query_embedding (limit request) (threshold request) of
        Inl err \<Rightarrow> Inl err
      | Inr search_results \<Rightarrow>
     (case process_hits s search_results [] of
        Inl err \<Rightarrow> Inl err
      | Inr docs \<Rightarrow>
          Inr \<lparr>documents = docs, query = QueryRequest.query request,
               took_ms = (clock s 1 - start_time) * 1000\<rparr>))))"

definition retrieve_docs :: "services \<Rightarrow> QueryRequest \<Rightarrow> HTTPException + QueryResponse" where
  "retrieve_docs s request =
     (case retrieve_body s request of
        Inl UnexpectedResponse \<Rightarrow> Inl \<lparr>status_code = 500, detail = Qdrant_search_error\<rparr>
      | Inl err \<Rightarrow> Inl \<lparr>status_code = 500, detail = Internal_server_error\<rparr>
      | Inr response \<Rightarrow> Inr response)"

section \<open>Notions used in the statements\<close>

text \<open>
  A document is recorded as unchanged in a state when its object can be fetched, the tracker
  file loads, and the entry stored under its name holds the hash of its current bytes.
\<close>

definition recorded_unchanged :: "env \<Rightarrow> world \<Rightarrow> string \<Rightarrow> bool" where
  "recorded_unchanged e w name =
     (case get_object w name of
        Inl err \<Rightarrow> False
      | Inr data \<Rightarrow>
          (case load_processed_files w of
             Inl err \<Rightarrow> False
           | Inr processed_files \<Rightarrow>
               (case map_of processed_files name of
                  None \<Rightarrow> False
                | Some en \<Rightarrow> hash en = get_file_hash e data)))"

text \<open>
  The upper 64 bits of the MD5 digest of the UTF-8 bytes of \<^verbatim>\<open>f"{file_name}-{i}"\<close>: the
  number that the first 16 hexadecimal digits of the digest denote.
\<close>

definition record_id :: "env \<Rightarrow> string \<Rightarrow> nat \<Rightarrow> nat" where
  "record_id e name i = unat (md5 e (utf8_encode (name @ ''-'' @ str_nat i))) div 2 ^ 64"

text \<open>
  What a run has added to the vector store between two states: the batches \<open>bs\<close> were
  accepted, in this order, after what the log held before; the points are the earlier
  points with every point of these batches stored under its identifier; the collection
  is there as before.
\<close>

definition stored :: "world \<Rightarrow> world \<Rightarrow> PointStruct list list \<Rightarrow> bool" where
  "stored w w' bs =
     (upsert_log w' = upsert_log w @ bs
      \<and> points w' = fold (\<lambda>b ps. fold (\<lambda>p ps. AList.update (point_id p) p ps) b ps) bs (points w)
      \<and> collection_exists w' = collection_exists w)"

text \<open>The identifier of a point and the \<^verbatim>\<open>chunk_index\<close> of its payload.\<close>

definition point_key :: "PointStruct \<Rightarrow> nat \<times> pyval option" where
  "point_key p = (point_id p, map_of (point_payload p) ''chunk_index'')"

definition chunk_key :: "env \<Rightarrow> string \<Rightarrow> nat \<times> string \<Rightarrow> nat \<times> pyval option" where
  "chunk_key e name ic = (record_id e name (fst ic), Some (PInt (int (fst ic))))"



subsection \<open>Concrete inputs\<close>

text \<open>
  A small environment: a stand-in digest (the length of the input), a reader that knows
  two PDF files (one page of text, and one page without text), an embedding of one number,
  a clock that counts, and a store that accepts every upsert.
\<close>

definition env0 :: env where
  "env0 = \<lparr>md5 = (\<lambda>b. of_nat (length b)),
           pdf_reader = (\<lambda>b. if b = ''%PDF-text'' then Some [''hello world'']
                               else if b = ''%PDF-blank'' then Some [[]]
                               else None),
           encode = (\<lambda>c. Some [1]),
           time_time = (\<lambda>n. real n),
           upsert_fails = (\<lambda>n. False)\<rparr>"

definition world0 :: world where
  "world0 = \<lparr>bucket_exists = True,
             objects = [(''a.pdf'', ''%PDF-text''), (''b.pdf'', ''%PDF-blank'')],
             collection_exists = True,
             points = [],
             upsert_calls = 0,
             upsert_log = [],
             tracker = Absent,
             clock_calls = 0\<rparr>"

text \<open>The same environment with a store that rejects every upsert.\<close>

definition env_rejecting :: env where
  "env_rejecting = env0\<lparr>upsert_fails := (\<lambda>n. True)\<rparr>"




text \<open>The same state after \<^verbatim>\<open>a.pdf\<close> was recorded with its current hash.\<close>

definition world_recorded :: world where
  "world_recorded =
     world0\<lparr>tracker := Stored [(''a.pdf'', \<lparr>hash = get_file_hash env0 ''%PDF-text'',
                                             last_indexed = 0\<rparr>)]\<rparr>"

text \<open>The same state with a tracker file that \<^verbatim>\<open>json.load\<close> cannot parse.\<close>

definition world_corrupt :: world where
  "world_corrupt = world0\<lparr>tracker := Unparseable\<rparr>"

text \<open>
  For the retrieval service: validators that accept exactly the values of the declared
  type (every version of the validation library accepts these and rejects a dictionary or
  a word where a number is declared), a request, and hits: one as the indexer writes
  them, one with nothing but its text, one without text, one whose metadata is not a
  dictionary, and one whose chunk index is not a number.
\<close>

definition strict_str :: "pyval \<Rightarrow> string option" where
  "strict_str v = (case v of PStr s \<Rightarrow> Some s | _ \<Rightarrow> None)"

definition strict_int :: "pyval \<Rightarrow> int option" where
  "strict_int v = (case v of PInt i \<Rightarrow> Some i | _ \<Rightarrow> None)"

definition services_of :: "ScoredPoint list \<Rightarrow> services" where
  "services_of hits =
     \<lparr>embed = (\<lambda>q. Inr [1]),
      search = (\<lambda>c v l t. Inr hits),
      validate_str = strict_str,
      validate_int = strict_int,
      clock = (\<lambda>n. real n)\<rparr>"

definition request0 :: QueryRequest where
  "request0 = \<lparr>QueryRequest.query = ''revenue growth'', limit = Some 3, threshold = Some (7 / 10)\<rparr>"

definition good_hit :: ScoredPoint where
  "good_hit =
     \<lparr>ScoredPoint.score = 9 / 10,
      payload = Some [(''text'', PStr ''alpha''),
                      (''metadata'', PDict [(''file_name'', PStr ''a.pdf''),
                                            (''page_count'', PInt 1)]),
                      (''chunk_index'', PInt 0),
                      (''total_chunks'', PInt 1)]\<rparr>"

definition bare_hit :: ScoredPoint where
  "bare_hit = \<lparr>ScoredPoint.score = 8 / 10, payload = Some [(''text'', PStr ''beta'')]\<rparr>"

definition textless_hit :: ScoredPoint where
  "textless_hit = \<lparr>ScoredPoint.score = 85 / 100, payload = Some [(''metadata'', PDict [])]\<rparr>"

definition malformed_hit :: ScoredPoint where
  "malformed_hit =
     \<lparr>ScoredPoint.score = 8 / 10,
      payload = Some [(''text'', PStr ''gamma''), (''metadata'', PStr ''oops'')]\<rparr>"

definition mistyped_hit :: ScoredPoint where
  "mistyped_hit =
     \<lparr>ScoredPoint.score = 8 / 10,
      payload = Some [(''text'', PStr ''delta''), (''chunk_index'', PStr ''first'')]\<rparr>"

section \<open>Properties of the chunker\<close>

text \<open>Rounding up a quotient of natural numbers.\<close>

lemma div_ceil_le: "0 < (c::nat) \<Longrightarrow> ((n + c - 1) div c \<le> k) = (n \<le> k * c)"
proof -
  assume c: "0 < c"
  have "((n + c - 1) div c \<le> k) = ((n + c - 1) div c < Suc k)" by auto
  also have "\<dots> = (n + c - 1 < Suc k * c)" using c by (simp only: div_less_iff_less_mult)
  also have "\<dots> = (n \<le> k * c)" using c by auto
  finally show ?thesis .
qed

lemma range_step_eq:
  "0 < c \<Longrightarrow> range_step (k * c) n c = map (\<lambda>j. j * c) [k ..< (n + c - 1) div c]"
proof (induction "n - k * c" arbitrary: k rule: less_induct)
  case less
  show ?case
  proof (cases "n \<le> k * c")
    case True
    then have "(n + c - 1) div c \<le> k"
      using less(2) div_ceil_le[of c n k] by simp
    with True less(2) show ?thesis by (simp add: range_step.simps[of "k * c"])
  next
    case False
    then have lt: "k < (n + c - 1) div c"
      using less(2) div_ceil_le[of c n k] by simp
    have "n - Suc k * c < n - k * c" using False less(2) by simp
    then have "range_step (Suc k * c) n c = map (\<lambda>j. j * c) [Suc k ..< (n + c - 1) div c]"
      using less(1)[of "Suc k"] less(2) by simp
    with False less(2) lt show ?thesis
      by (simp add: range_step.simps[of "k * c"] upt_conv_Cons add.commute)
  qed
qed

lemma ceil_nat: "0 < c \<Longrightarrow> \<lceil>real n / real c\<rceil> = int ((n + c - 1) div c)"
proof (rule ceiling_unique)
  assume c: "0 < c"
  define m where "m = (n + c - 1) div c"
  have "n \<le> m * c" using div_ceil_le[OF c, of n m] by (simp add: m_def)
  then have "real n \<le> real m * real c" by (metis of_nat_le_iff of_nat_mult)
  then show "real n / real c \<le> of_int (int ((n + c - 1) div c))"
    using c unfolding m_def by (simp add: divide_le_eq)
  show "of_int (int ((n + c - 1) div c)) - 1 < real n / real c"
  proof (cases m)
    case 0
    have "(0::real) \<le> real n / real c" by simp
    then have "- 1 < real n / real c" by linarith
    with 0 show ?thesis unfolding m_def by simp
  next
    case (Suc k)
    then have "\<not> m \<le> k" by simp
    then have "k * c < n" using div_ceil_le[OF c, of n k] by (simp add: m_def)
    then have "real k * real c < real n" by (metis of_nat_less_iff of_nat_mult)
    with Suc c show ?thesis unfolding m_def by (simp add: less_divide_eq)
  qed
qed

lemma concat_chunks:
  "0 < c \<Longrightarrow> concat (map (\<lambda>j. take c (drop (j * c) xs)) [k ..< (length xs + c - 1) div c]) = drop (k * c) xs"
proof (induction "length xs - k * c" arbitrary: k rule: less_induct)
  case less
  show ?case
  proof (cases "length xs \<le> k * c")
    case True
    then have "(length xs + c - 1) div c \<le> k"
      using less(2) div_ceil_le[of c "length xs" k] by simp
    with True show ?thesis by simp
  next
    case False
    then have lt: "k < (length xs + c - 1) div c"
      using less(2) div_ceil_le[of c "length xs" k] by simp
    have "length xs - Suc k * c < length xs - k * c" using False less(2) by simp
    then have ih: "concat (map (\<lambda>j. take c (drop (j * c) xs)) [Suc k ..< (length xs + c - 1) div c]) = drop (Suc k * c) xs"
      using less(1)[of "Suc k"] less(2) by simp
    have "take c (drop (k * c) xs) @ drop (Suc k * c) xs = drop (k * c) xs"
      using append_take_drop_id[of c "drop (k * c) xs"] by (simp add: add.commute)
    with ih lt show ?thesis by (simp add: upt_conv_Cons)
  qed
qed

lemma split_text_into_chunks_eq:
  assumes "1 \<le> C"
  shows "split_text_into_chunks T C = Inr (map (\<lambda>j. take (nat C) (drop (j * nat C) T)) [0 ..< (length T + nat C - 1) div nat C])"
proof (cases "T = []")
  case True
  with assms show ?thesis by (simp add: split_text_into_chunks_def)
next
  case False
  have c: "0 < nat C" using assms by simp
  have "range_step 0 (length T) (nat C) = map (\<lambda>j. j * nat C) [0 ..< (length T + nat C - 1) div nat C]"
    using range_step_eq[OF c, of 0 "length T"] by simp
  with False assms show ?thesis
    by (simp add: split_text_into_chunks_def slice_def comp_def)
qed

text \<open>
  C2. For a chunk size \<open>C \<ge> 1\<close> and a text \<open>T\<close> of length \<open>L\<close>, the chunker returns
  (it does not raise) exactly \<open>\<lceil>L / C\<rceil>\<close> chunks; chunk \<open>i\<close> is the slice of \<open>T\<close> from offset
  \<open>i * C\<close> to \<open>(i + 1) * C\<close>; every chunk but possibly the last has length \<open>C\<close>, and no
  chunk is empty or longer than \<open>C\<close>; the chunks concatenated in order are \<open>T\<close>. For the
  empty text the chunker returns the empty list, whatever the chunk size.
\<close>

theorem split_text_into_chunks_spec:
  "(1 \<le> C \<longrightarrow>
      (\<exists>cs. split_text_into_chunks T C = Inr cs
          \<and> int (length cs) = \<lceil>real (length T) / real_of_int C\<rceil>
          \<and> (\<forall>i<length cs. cs ! i = slice T (i * nat C) ((i + 1) * nat C))
          \<and> (\<forall>i. Suc i < length cs \<longrightarrow> length (cs ! i) = nat C)
          \<and> (\<forall>i<length cs. 0 < length (cs ! i) \<and> length (cs ! i) \<le> nat C)
          \<and> concat cs = T))
   \<and> split_text_into_chunks ([] :: 'a list) C = Inr []"
proof (intro conjI impI)
  show "split_text_into_chunks ([] :: 'a list) C = Inr []"
    by (simp add: split_text_into_chunks_def)
next
  assume C: "1 \<le> C"
  define c where "c = nat C"
  define n where "n = (length T + c - 1) div c"
  define cs where "cs = map (\<lambda>j. take c (drop (j * c) T)) [0 ..< n]"
  have c: "0 < c" using C by (simp add: c_def)
  have Cc: "real_of_int C = real c" using C by (simp add: c_def)
  have eq: "split_text_into_chunks T C = Inr cs"
    using split_text_into_chunks_eq[OF C, of T] by (simp add: cs_def n_def c_def)
  have len: "length cs = n" by (simp add: cs_def)
  have ceil: "int (length cs) = \<lceil>real (length T) / real_of_int C\<rceil>"
    using ceil_nat[OF c, of "length T"] by (simp add: len n_def Cc)
  have nth: "\<forall>i<length cs. cs ! i = slice T (i * c) ((i + 1) * c)"
    by (simp add: cs_def slice_def)
  have lt: "i * c < length T" if "i < n" for i
    using that div_ceil_le[OF c, of "length T" i] by (simp add: n_def)
  have full: "\<forall>i. Suc i < length cs \<longrightarrow> length (cs ! i) = c"
  proof (intro allI impI)
    fix i assume i: "Suc i < length cs"
    then have "Suc i * c < length T" using lt[of "Suc i"] by (simp add: len)
    then have "c \<le> length T - i * c" by simp
    with i show "length (cs ! i) = c" by (simp add: cs_def min_def)
  qed
  have bounds: "\<forall>i<length cs. 0 < length (cs ! i) \<and> length (cs ! i) \<le> c"
  proof (intro allI impI)
    fix i assume i: "i < length cs"
    then have "i * c < length T" using lt[of i] by (simp add: len)
    with i c show "0 < length (cs ! i) \<and> length (cs ! i) \<le> c" by (simp add: cs_def)
  qed
  have cat: "concat cs = T"
    using concat_chunks[OF c, of T 0] by (simp add: cs_def n_def)
  show "\<exists>cs. split_text_into_chunks T C = Inr cs
          \<and> int (length cs) = \<lceil>real (length T) / real_of_int C\<rceil>
          \<and> (\<forall>i<length cs. cs ! i = slice T (i * nat C) ((i + 1) * nat C))
          \<and> (\<forall>i. Suc i < length cs \<longrightarrow> length (cs ! i) = nat C)
          \<and> (\<forall>i<length cs. 0 < length (cs ! i) \<and> length (cs ! i) \<le> nat C)
          \<and> concat cs = T"
    using eq ceil nth full bounds cat unfolding c_def[symmetric] by blast
qed

theorem split_text_into_chunks_spec_witness:
  "(1::int) \<le> 2 \<and>
   (\<exists>cs. split_text_into_chunks ''abcde'' 2 = Inr cs \<and> length cs = 3 \<and> concat cs = ''abcde''
        \<and> cs ! 0 = ''ab'' \<and> cs ! 2 = ''e'')"
proof -
  have h: "(1::int) \<le> 2" by simp
  have c: "\<lceil>real (length ''abcde'') / real_of_int 2\<rceil> = 3" by simp
  from split_text_into_chunks_spec[of 2 "''abcde''"] h
  obtain cs where cs: "split_text_into_chunks ''abcde'' 2 = Inr cs"
      "int (length cs) = \<lceil>real (length ''abcde'') / real_of_int 2\<rceil>"
      "\<forall>i<length cs. cs ! i = slice ''abcde'' (i * nat 2) ((i + 1) * nat 2)"
      "concat cs = ''abcde''"
    by blast
  from cs(2) c have l: "length cs = 3" by simp
  from cs(3) l have "cs ! 0 = ''ab''" "cs ! 2 = ''e''" by (simp_all add: slice_def)
  with cs l h show ?thesis by blast
qed

section \<open>Properties of the record identifier\<close>

lemma length_to_hex: "length (to_hex k n) = k"
  by (induction k arbitrary: n) simp_all

lemma take_to_hex: "take j (to_hex (j + m) n) = to_hex j (n div 16 ^ m)"
proof (induction m arbitrary: n)
  case 0
  then show ?case by (simp add: length_to_hex)
next
  case (Suc m)
  have "take j (to_hex (j + Suc m) n) = take j (to_hex (j + m) (n div 16))"
    by (simp add: length_to_hex)
  also have "\<dots> = to_hex j (n div 16 div 16 ^ m)" by (rule Suc.IH)
  also have "n div 16 div 16 ^ m = n div 16 ^ Suc m" by (simp add: div_mult2_eq)
  finally show ?case .
qed

lemma hex_val_hexchar_aux: "\<forall>d\<in>set [0..<16]. hex_val (hexchar d) = Some d"
  by code_simp

lemma hex_val_hexchar: "hex_val (hexchar n) = Some (n mod 16)"
proof -
  have "n mod 16 \<in> set [0..<16]" by simp
  then have "hex_val (hexchar (n mod 16)) = Some (n mod 16)"
    using hex_val_hexchar_aux by blast
  then show ?thesis by (simp add: hexchar_def)
qed

lemma int_base16_acc_snoc:
  "int_base16_acc a (xs @ [c]) =
     (case int_base16_acc a xs of
        None \<Rightarrow> None
      | Some b \<Rightarrow> (case hex_val c of None \<Rightarrow> None | Some d \<Rightarrow> Some (b * 16 + d)))"
  by (induction xs arbitrary: a) (simp_all split: option.splits)

lemma int_base16_acc_to_hex:
  "int_base16_acc a (to_hex k n) = Some (a * 16 ^ k + n mod 16 ^ k)"
proof (induction k arbitrary: n)
  case 0
  then show ?case by simp
next
  case (Suc k)
  have "n mod (16 * 16 ^ k) = 16 * (n div 16 mod 16 ^ k) + n mod 16"
    by (rule mod_mult2_eq)
  then show ?case
    by (simp add: int_base16_acc_snoc Suc.IH hex_val_hexchar algebra_simps)
qed

lemma chunk_id_eq: "chunk_id e name i = Inr (record_id e name i)"
proof -
  define d where "d = md5 e (utf8_encode (name @ ''-'' @ str_nat i))"
  define m where "m = unat d div 16 ^ 16"
  have "unat d < 2 ^ 128" using unsigned_less[of d] by simp
  then have "unat d < 16 ^ 16 * 16 ^ 16" by simp
  then have m: "m < 16 ^ 16" unfolding m_def by (simp add: less_mult_imp_div_less)
  have t: "take 16 (hexdigest d) = to_hex 16 m"
    using take_to_hex[of 16 16 "unat d"] by (simp add: hexdigest_def m_def)
  have ne: "to_hex 16 m \<noteq> []"
    using length_to_hex[of 16 m] by auto
  have p: "int_base16 (to_hex 16 m) = Inr m"
    using ne m by (simp add: int_base16_def int_base16_acc_to_hex)
  have r: "record_id e name i = m"
    unfolding record_id_def m_def d_def by simp
  have "chunk_id e name i = int_base16 (take 16 (hexdigest d))"
    by (simp only: chunk_id_def d_def)
  also have "\<dots> = Inr m" by (simp only: t p)
  finally show ?thesis by (simp only: r)
qed

lemma record_id_bound: "record_id e name i < 2 ^ 64"
proof -
  have "unat (md5 e (utf8_encode (name @ ''-'' @ str_nat i))) < 2 ^ 64 * 2 ^ 64"
    using unsigned_less[of "md5 e (utf8_encode (name @ ''-'' @ str_nat i))"] by simp
  then show ?thesis unfolding record_id_def by (simp add: less_mult_imp_div_less)
qed

section \<open>Properties of the change tracker and of the early exits\<close>

lemma index_document_unchanged:
  assumes "recorded_unchanged e w name"
  shows "index_document e False name w = (Skipped Unchanged, w)"
  using assms
  by (auto simp: recorded_unchanged_def index_document_def should_process_def Let_def
           split: sum.splits option.splits)

lemma index_documents_unchanged:
  assumes "\<forall>name\<in>set names. recorded_unchanged e w name"
  shows "index_documents e False names w = (map (\<lambda>name. Skipped Unchanged) names, w)"
  using assms by (induction names) (simp_all add: index_document_unchanged)

text \<open>
  C1. In incremental mode (\<^verbatim>\<open>FORCE_REINDEX\<close> off), a document whose entry in the tracker
  holds the hash of its current bytes is skipped and the state is left as it was: no
  upsert call is made, nothing is stored, the tracker file is not written. Hence a run
  of the loop over documents that are all recorded as unchanged, and a run of the whole
  pipeline over a bucket of such documents whose collection exists, return the state they
  started from.
\<close>

theorem unchanged_documents_leave_state:
  "(recorded_unchanged e w name \<longrightarrow> index_document e False name w = (Skipped Unchanged, w))
   \<and> ((\<forall>name\<in>set names. recorded_unchanged e w name) \<longrightarrow>
        index_documents e False names w = (map (\<lambda>name. Skipped Unchanged) names, w))
   \<and> (collection_exists w \<and> (\<forall>name\<in>set (map fst (objects w)). recorded_unchanged e w name) \<longrightarrow>
        snd (index_all_documents e False w) = w)"
proof (intro conjI impI)
  assume "recorded_unchanged e w name"
  then show "index_document e False name w = (Skipped Unchanged, w)"
    by (rule index_document_unchanged)
next
  assume "\<forall>name\<in>set names. recorded_unchanged e w name"
  then show "index_documents e False names w = (map (\<lambda>name. Skipped Unchanged) names, w)"
    by (rule index_documents_unchanged)
next
  assume a: "collection_exists w \<and> (\<forall>name\<in>set (map fst (objects w)). recorded_unchanged e w name)"
  then have "index_documents e False (map fst (objects w)) w =
      (map (\<lambda>name. Skipped Unchanged) (map fst (objects w)), w)"
    using index_documents_unchanged[of "map fst (objects w)" e w] by blast
  with a show "snd (index_all_documents e False w) = w"
    by (simp add: index_all_documents_def ensure_collection_exists_def)
qed

lemma world_recorded_unchanged: "recorded_unchanged env0 world_recorded ''a.pdf''"
  by (simp add: recorded_unchanged_def world_recorded_def world0_def get_object_def
      load_processed_files_def)

theorem unchanged_documents_leave_state_witness:
  "recorded_unchanged env0 world_recorded ''a.pdf''
   \<and> index_document env0 False ''a.pdf'' world_recorded = (Skipped Unchanged, world_recorded)
   \<and> index_documents env0 False [''a.pdf'', ''a.pdf''] world_recorded
       = ([Skipped Unchanged, Skipped Unchanged], world_recorded)"
proof -
  have h: "recorded_unchanged env0 world_recorded ''a.pdf''"
    by (rule world_recorded_unchanged)
  then have hs: "\<forall>name\<in>set [''a.pdf'', ''a.pdf'']. recorded_unchanged env0 world_recorded name"
    by simp
  from unchanged_documents_leave_state[of env0 world_recorded "''a.pdf''" "[''a.pdf'', ''a.pdf'']"] h hs
  show ?thesis by simp
qed

text \<open>
  C3. The document is skipped as unchanged exactly when incremental mode is on, the
  tracker has an entry under the document's name, and the hash stored in that entry is
  the hash given; in every other case \<open>should_process\<close> holds, and \<^verbatim>\<open>index_document\<close>
  (once the object is fetched and the tracker file loaded) goes past the test of line 144.
\<close>

theorem should_process_iff:
  "(should_process FORCE_REINDEX processed_files name file_hash
      = (\<not> (\<not> FORCE_REINDEX \<and> (\<exists>en. map_of processed_files name = Some en \<and> hash en = file_hash))))
   \<and> (get_object w name = Inr data \<and> load_processed_files w = Inr processed_files \<longrightarrow>
        (fst (index_document e FORCE_REINDEX name w) = Skipped Unchanged)
          = (\<not> should_process FORCE_REINDEX processed_files name (get_file_hash e data)))"
proof (intro conjI impI)
  show "should_process FORCE_REINDEX processed_files name file_hash
      = (\<not> (\<not> FORCE_REINDEX \<and> (\<exists>en. map_of processed_files name = Some en \<and> hash en = file_hash)))"
    by (auto simp: should_process_def split: option.splits)
next
  assume "get_object w name = Inr data \<and> load_processed_files w = Inr processed_files"
  then show "(fst (index_document e FORCE_REINDEX name w) = Skipped Unchanged)
          = (\<not> should_process FORCE_REINDEX processed_files name (get_file_hash e data))"
    by (auto simp: index_document_def Let_def split: sum.splits prod.splits if_splits)
qed

theorem should_process_iff_witness:
  "get_object world_recorded ''a.pdf'' = Inr ''%PDF-text''
   \<and> load_processed_files world_recorded
        = Inr [(''a.pdf'', \<lparr>hash = get_file_hash env0 ''%PDF-text'', last_indexed = 0\<rparr>)]
   \<and> fst (index_document env0 False ''a.pdf'' world_recorded) = Skipped Unchanged
   \<and> \<not> should_process False
          [(''a.pdf'', \<lparr>hash = get_file_hash env0 ''%PDF-text'', last_indexed = 0\<rparr>)]
          ''a.pdf'' (get_file_hash env0 ''%PDF-text'')
   \<and> should_process True
          [(''a.pdf'', \<lparr>hash = get_file_hash env0 ''%PDF-text'', last_indexed = 0\<rparr>)]
          ''a.pdf'' (get_file_hash env0 ''%PDF-text'')"
proof -
  let ?pf = "[(''a.pdf'', \<lparr>hash = get_file_hash env0 ''%PDF-text'', last_indexed = 0\<rparr>)]"
  have g: "get_object world_recorded ''a.pdf'' = Inr ''%PDF-text''"
    by (simp add: get_object_def world_recorded_def world0_def)
  have l: "load_processed_files world_recorded = Inr ?pf"
    by (simp add: load_processed_files_def world_recorded_def)
  have a: "\<not> should_process False ?pf ''a.pdf'' (get_file_hash env0 ''%PDF-text'')"
    using should_process_iff[of False ?pf "''a.pdf''" "get_file_hash env0 ''%PDF-text''"]
    by simp
  have b: "should_process True ?pf ''a.pdf'' (get_file_hash env0 ''%PDF-text'')"
    using should_process_iff[of True ?pf "''a.pdf''" "get_file_hash env0 ''%PDF-text''"]
    by simp
  have c: "fst (index_document env0 False ''a.pdf'' world_recorded) = Skipped Unchanged"
    using should_process_iff[of False ?pf "''a.pdf''" "get_file_hash env0 ''%PDF-text''"
        world_recorded "''%PDF-text''" env0] g l a
    by blast
  from g l a b c show ?thesis by blast
qed

section \<open>Properties of the remaining early exits\<close>

lemma split_text_into_chunks_empty_iff:
  "(split_text_into_chunks body CHUNK_SIZE = Inr []) = (body = [])"
proof (cases "body = []")
  case True
  then show ?thesis by (simp add: split_text_into_chunks_def)
next
  case False
  then have "0 < length body" by simp
  then have "0 < (length body + 500 - 1) div 500" by (simp add: div_greater_zero_iff Suc_le_eq)
  then show ?thesis
    using False split_text_into_chunks_eq[of CHUNK_SIZE body] by (simp add: CHUNK_SIZE_def)
qed

text \<open>
  C5. When the extracted text gives no chunk (which is the case exactly when the text is
  empty), \<^verbatim>\<open>index_document\<close> returns through the \<^verbatim>\<open>return\<close> of line 168: the document
  is skipped and the state is the one it started from, so that no upsert call was made and
  the tracker file was not written. Indexing the document again in that state takes the
  same path: the document has not been recorded as processed.
\<close>

theorem empty_chunks_skipped:
  assumes "get_object w name = Inr data"
    and "load_processed_files w = Inr processed_files"
    and "should_process FORCE_REINDEX processed_files name (get_file_hash e data)"
    and "endswith (lower name) ''.pdf''"
    and "extract_text_from_pdf e data = Inr (body, n_pages)"
    and "split_text_into_chunks body CHUNK_SIZE = Inr []"
  shows "index_document e FORCE_REINDEX name w = (Skipped NoChunks, w)
       \<and> body = []
       \<and> upsert_calls (snd (index_document e FORCE_REINDEX name w)) = upsert_calls w
       \<and> tracker (snd (index_document e FORCE_REINDEX name w)) = tracker w
       \<and> index_document e FORCE_REINDEX name (snd (index_document e FORCE_REINDEX name w))
           = (Skipped NoChunks, w)"
proof -
  have r: "index_document e FORCE_REINDEX name w = (Skipped NoChunks, w)"
    using assms by (simp add: index_document_def Let_def)
  have t: "body = []"
    using assms(6) by (simp add: split_text_into_chunks_empty_iff)
  from r t show ?thesis by simp
qed

lemma lower_b_pdf: "endswith (lower ''b.pdf'') ''.pdf''"
  by (simp add: endswith_def lower_def lower_char_def)

lemma lower_a_pdf: "endswith (lower ''a.pdf'') ''.pdf''"
  by (simp add: endswith_def lower_def lower_char_def)

lemma extract_blank: "extract_text_from_pdf env0 ''%PDF-blank'' = Inr ([], 1)"
  by (simp add: extract_text_from_pdf_def env0_def strip_def)

theorem empty_chunks_skipped_witness:
  "get_object world0 ''b.pdf'' = Inr ''%PDF-blank''
   \<and> load_processed_files world0 = Inr []
   \<and> should_process False [] ''b.pdf'' (get_file_hash env0 ''%PDF-blank'')
   \<and> endswith (lower ''b.pdf'') ''.pdf''
   \<and> extract_text_from_pdf env0 ''%PDF-blank'' = Inr ([], 1)
   \<and> split_text_into_chunks ([] :: string) CHUNK_SIZE = Inr []
   \<and> index_document env0 False ''b.pdf'' world0 = (Skipped NoChunks, world0)"
proof -
  have g: "get_object world0 ''b.pdf'' = Inr ''%PDF-blank''"
    by (simp add: get_object_def world0_def)
  have l: "load_processed_files world0 = Inr []"
    by (simp add: load_processed_files_def world0_def)
  have s: "should_process False [] ''b.pdf'' (get_file_hash env0 ''%PDF-blank'')"
    by (simp add: should_process_def)
  have c: "split_text_into_chunks ([] :: string) CHUNK_SIZE = Inr []"
    by (simp add: split_text_into_chunks_def)
  from empty_chunks_skipped[OF g l s lower_b_pdf extract_blank c] g l s lower_b_pdf extract_blank c
  show ?thesis by simp
qed

section \<open>Properties of the upload loop\<close>

lemma stored_refl: "stored w w []"
  by (simp add: stored_def)

lemma stored_clock: "stored w (w\<lparr>clock_calls := n\<rparr>) []"
  by (simp add: stored_def)

lemma stored_trans: "stored w w1 bs \<Longrightarrow> stored w1 w2 cs \<Longrightarrow> stored w w2 (bs @ cs)"
  by (simp add: stored_def)

lemma upsert_Inr:
  assumes "upsert e b w = Inr w2"
  shows "stored w w2 [b] \<and> tracker w2 = tracker w \<and> upsert_calls w2 = Suc (upsert_calls w)
       \<and> clock_calls w2 = clock_calls w"
  using assms by (auto simp: upsert_def Let_def stored_def split: if_splits)

lemma upsert_Inl:
  assumes "upsert e b w = Inl (err, w2)"
  shows "err = UnexpectedResponse \<and> stored w w2 [] \<and> tracker w2 = tracker w
       \<and> upsert_calls w2 = Suc (upsert_calls w)
       \<and> (upsert_fails e (upsert_calls w) \<or> \<not> collection_exists w)"
  using assms by (auto simp: upsert_def Let_def stored_def split: if_splits)

lemma point_key_made:
  "point_key \<lparr>point_id = record_id e name i, vector = v,
              point_payload = make_payload chunk md i tot t\<rparr> = chunk_key e name (i, chunk)"
  by (simp add: point_key_def chunk_key_def make_payload_def)

lemma upload_loop_inv:
  assumes "length pts < 100"
  shows "case upload_loop e name md tot ics pts w of
           Inr (pts', w') \<Rightarrow>
             (\<exists>bs. stored w w' bs \<and> tracker w' = tracker w
                \<and> (\<forall>b\<in>set bs. length b = 100) \<and> length pts' < 100
                \<and> upsert_calls w' = upsert_calls w + length bs
                \<and> map point_key (concat bs @ pts') = map point_key pts @ map (chunk_key e name) ics)
         | Inl (err, w') \<Rightarrow>
             (\<exists>bs rest. stored w w' bs \<and> tracker w' = tracker w
                \<and> (\<forall>b\<in>set bs. length b = 100)
                \<and> map point_key (concat bs) @ rest = map point_key pts @ map (chunk_key e name) ics
                \<and> (if err = UnexpectedResponse
                    then upsert_calls w' = upsert_calls w + length bs + 1
                         \<and> (upsert_fails e (upsert_calls w + length bs) \<or> \<not> collection_exists w)
                    else upsert_calls w' = upsert_calls w + length bs))"
  using assms
proof (induction ics arbitrary: pts w)
  case Nil
  have "stored w w [] \<and> (\<forall>b\<in>set ([] :: PointStruct list list). length b = 100)"
    by (simp add: stored_refl)
  then show ?case using Nil by auto
next
  case (Cons ic ics)
  obtain i chunk where ic: "ic = (i, chunk)" by (cases ic)
  show ?case
  proof (cases "encode e chunk")
    case None
    have "stored w w [] \<and> (\<forall>b\<in>set ([] :: PointStruct list list). length b = 100)"
      by (simp add: stored_refl)
    then show ?thesis using None ic by auto
  next
    case (Some emb)
    define w1 where "w1 = w\<lparr>clock_calls := Suc (clock_calls w)\<rparr>"
    define p where "p = \<lparr>point_id = record_id e name i, vector = emb,
        point_payload = make_payload chunk md i tot (time_time e (clock_calls w))\<rparr>"
    define pts1 where "pts1 = pts @ [p]"
    have kp: "point_key p = chunk_key e name (i, chunk)"
      unfolding p_def by (rule point_key_made)
    have w1: "stored w w1 []" "tracker w1 = tracker w" "upsert_calls w1 = upsert_calls w"
      "collection_exists w1 = collection_exists w"
      by (simp_all add: w1_def stored_def)
    have step: "upload_loop e name md tot (ic # ics) pts w =
        (if 100 \<le> length pts1 then
           (case upsert e pts1 w1 of
              Inl err \<Rightarrow> Inl err
            | Inr w2 \<Rightarrow> upload_loop e name md tot ics [] w2)
         else upload_loop e name md tot ics pts1 w1)"
      by (simp add: ic Some chunk_id_eq time_now_def Let_def w1_def p_def pts1_def)
    show ?thesis
    proof (cases "100 \<le> length pts1")
      case False
      then have l: "length pts1 < 100" by simp
      have eq: "upload_loop e name md tot (ic # ics) pts w = upload_loop e name md tot ics pts1 w1"
        using step False by simp
      have keys: "map point_key pts1 @ map (chunk_key e name) ics
          = map point_key pts @ map (chunk_key e name) (ic # ics)"
        by (simp add: pts1_def kp ic)
      show ?thesis
        using Cons.IH[OF l, of w1] unfolding eq keys
        by (auto simp: w1 stored_def w1_def split: sum.splits prod.splits if_splits)
    next
      case True
      with Cons.prems have len: "length pts1 = 100" by (simp add: pts1_def)
      show ?thesis
      proof (cases "upsert e pts1 w1")
        case (Inl a)
        obtain err w2 where a: "a = (err, w2)" by (cases a)
        have eq: "upload_loop e name md tot (ic # ics) pts w = Inl (err, w2)"
          using step True Inl a by simp
        from upsert_Inl[OF Inl[unfolded a]] w1
        have f: "err = UnexpectedResponse" "stored w w2 []" "tracker w2 = tracker w"
          "upsert_calls w2 = upsert_calls w + 1"
          "upsert_fails e (upsert_calls w) \<or> \<not> collection_exists w"
          by (auto simp: stored_def)
        have g: "\<exists>bs rest. stored w w2 bs \<and> tracker w2 = tracker w
                \<and> (\<forall>b\<in>set bs. length b = 100)
                \<and> map point_key (concat bs) @ rest
                    = map point_key pts @ map (chunk_key e name) (ic # ics)
                \<and> (if err = UnexpectedResponse
                    then upsert_calls w2 = upsert_calls w + length bs + 1
                         \<and> (upsert_fails e (upsert_calls w + length bs) \<or> \<not> collection_exists w)
                    else upsert_calls w2 = upsert_calls w + length bs)"
          apply (rule exI[of _ "[]"])
          apply (rule exI[of _ "map point_key pts @ map (chunk_key e name) (ic # ics)"])
          using f by simp
        show ?thesis unfolding eq sum.case prod.case by (rule g)
      next
        case (Inr w2)
        have eq: "upload_loop e name md tot (ic # ics) pts w = upload_loop e name md tot ics [] w2"
          using step True Inr by simp
        from upsert_Inr[OF Inr] w1
        have f: "stored w w2 [pts1]" "tracker w2 = tracker w"
          "upsert_calls w2 = upsert_calls w + 1" "collection_exists w2 = collection_exists w"
          by (auto simp: stored_def)
        have keys1: "map point_key pts1 = map point_key pts @ [chunk_key e name ic]"
          by (simp add: pts1_def kp ic)
        have l0: "length ([] :: PointStruct list) < 100" by simp
        show ?thesis
        proof (cases "upload_loop e name md tot ics [] w2")
          case (Inl a)
          obtain err w' where a: "a = (err, w')" by (cases a)
          from Cons.IH[OF l0, of w2] Inl a
          obtain bs rest where h: "stored w2 w' bs" "tracker w' = tracker w2"
            "\<forall>b\<in>set bs. length b = 100"
            "map point_key (concat bs) @ rest = map (chunk_key e name) ics"
            "if err = UnexpectedResponse
               then upsert_calls w' = upsert_calls w2 + length bs + 1
                    \<and> (upsert_fails e (upsert_calls w2 + length bs) \<or> \<not> collection_exists w2)
               else upsert_calls w' = upsert_calls w2 + length bs"
            by auto
          have g: "\<exists>bs rest. stored w w' bs \<and> tracker w' = tracker w
                \<and> (\<forall>b\<in>set bs. length b = 100)
                \<and> map point_key (concat bs) @ rest
                    = map point_key pts @ map (chunk_key e name) (ic # ics)
                \<and> (if err = UnexpectedResponse
                    then upsert_calls w' = upsert_calls w + length bs + 1
                         \<and> (upsert_fails e (upsert_calls w + length bs) \<or> \<not> collection_exists w)
                    else upsert_calls w' = upsert_calls w + length bs)"
            apply (rule exI[of _ "pts1 # bs"])
            apply (rule exI[of _ rest])
            using stored_trans[OF f(1) h(1)] h f len keys1 by (auto split: if_splits)
          show ?thesis unfolding eq Inl a sum.case prod.case by (rule g)
        next
          case (Inr b)
          obtain pts' w' where b: "b = (pts', w')" by (cases b)
          from Cons.IH[OF l0, of w2] Inr b
          obtain bs where h: "stored w2 w' bs" "tracker w' = tracker w2"
            "\<forall>b\<in>set bs. length b = 100" "length pts' < 100"
            "upsert_calls w' = upsert_calls w2 + length bs"
            "map point_key (concat bs @ pts') = map (chunk_key e name) ics"
            by auto
          have g: "\<exists>bs. stored w w' bs \<and> tracker w' = tracker w
                \<and> (\<forall>b\<in>set bs. length b = 100) \<and> length pts' < 100
                \<and> upsert_calls w' = upsert_calls w + length bs
                \<and> map point_key (concat bs @ pts')
                    = map point_key pts @ map (chunk_key e name) (ic # ics)"
            apply (rule exI[of _ "pts1 # bs"])
            using stored_trans[OF f(1) h(1)] h f len keys1 by auto
          show ?thesis unfolding eq Inr b sum.case prod.case by (rule g)
        qed
      qed
    qed
  qed
qed

lemma keys_prefix:
  assumes "map point_key xs @ rest = map (chunk_key e name) (enumerate 0 cs)"
    and "k < length xs"
  shows "point_key (xs ! k) = (record_id e name k, Some (PInt (int k)))"
proof -
  from assms(1) have "length (map point_key xs @ rest) = length (map (chunk_key e name) (enumerate 0 cs))"
    by (rule arg_cong)
  then have "length xs + length rest = length cs" by simp
  with assms(2) have kc: "k < length cs" by simp
  have "(map point_key xs @ rest) ! k = point_key (xs ! k)"
    using assms(2) by (simp add: nth_append)
  moreover have "map (chunk_key e name) (enumerate 0 cs) ! k = (record_id e name k, Some (PInt (int k)))"
    using kc by (simp add: nth_enumerate_eq chunk_key_def)
  ultimately show ?thesis using assms(1) by simp
qed

lemma upload_points_inv:
  "case upload_points e name md cs w of
     Inr w' \<Rightarrow>
       (\<exists>bs. stored w w' bs \<and> tracker w' = tracker w
          \<and> (\<forall>b\<in>set bs. 0 < length b \<and> length b \<le> 100)
          \<and> (\<forall>k. Suc k < length bs \<longrightarrow> length (bs ! k) = 100)
          \<and> upsert_calls w' = upsert_calls w + length bs
          \<and> map point_key (concat bs) @ [] = map (chunk_key e name) (enumerate 0 cs))
   | Inl (err, w') \<Rightarrow>
       (\<exists>bs rest. stored w w' bs \<and> tracker w' = tracker w
          \<and> (\<forall>b\<in>set bs. 0 < length b \<and> length b \<le> 100)
          \<and> (\<forall>k. Suc k < length bs \<longrightarrow> length (bs ! k) = 100)
          \<and> map point_key (concat bs) @ rest = map (chunk_key e name) (enumerate 0 cs)
          \<and> (if err = UnexpectedResponse
              then upsert_calls w' = upsert_calls w + length bs + 1
                   \<and> (upsert_fails e (upsert_calls w + length bs) \<or> \<not> collection_exists w)
              else upsert_calls w' = upsert_calls w + length bs))"
proof -
  have l0: "length ([] :: PointStruct list) < 100" by simp
  note inv = upload_loop_inv[where pts="[]" and e=e and name=name and md=md and tot="length cs" and ics="enumerate 0 cs" and w=w, OF l0]
  show ?thesis
  proof (cases "upload_loop e name md (length cs) (enumerate 0 cs) [] w")
    case (Inl a)
    obtain err w1 where a: "a = (err, w1)" by (cases a)
    from inv Inl a
    obtain bs rest where h: "stored w w1 bs" "tracker w1 = tracker w"
      "\<forall>b\<in>set bs. length b = 100"
      "map point_key (concat bs) @ rest = map (chunk_key e name) (enumerate 0 cs)"
      "if err = UnexpectedResponse
         then upsert_calls w1 = upsert_calls w + length bs + 1
              \<and> (upsert_fails e (upsert_calls w + length bs) \<or> \<not> collection_exists w)
         else upsert_calls w1 = upsert_calls w + length bs"
      by auto
    have eq: "upload_points e name md cs w = Inl (err, w1)"
      by (simp add: upload_points_def Inl a)
    have g: "\<exists>bs rest. stored w w1 bs \<and> tracker w1 = tracker w
          \<and> (\<forall>b\<in>set bs. 0 < length b \<and> length b \<le> 100)
          \<and> (\<forall>k. Suc k < length bs \<longrightarrow> length (bs ! k) = 100)
          \<and> map point_key (concat bs) @ rest = map (chunk_key e name) (enumerate 0 cs)
          \<and> (if err = UnexpectedResponse
              then upsert_calls w1 = upsert_calls w + length bs + 1
                   \<and> (upsert_fails e (upsert_calls w + length bs) \<or> \<not> collection_exists w)
              else upsert_calls w1 = upsert_calls w + length bs)"
      apply (rule exI[of _ bs])
      apply (rule exI[of _ rest])
      using h by (auto split: if_splits)
    show ?thesis unfolding eq sum.case prod.case by (rule g)
  next
    case (Inr b)
    obtain pts w1 where b: "b = (pts, w1)" by (cases b)
    from inv Inr b
    obtain bs where h: "stored w w1 bs" "tracker w1 = tracker w"
      "\<forall>b\<in>set bs. length b = 100" "length pts < 100"
      "upsert_calls w1 = upsert_calls w + length bs"
      "map point_key (concat bs @ pts) = map (chunk_key e name) (enumerate 0 cs)"
      by auto
    show ?thesis
    proof (cases "pts = []")
      case True
      have eq: "upload_points e name md cs w = Inr w1"
        by (simp add: upload_points_def Inr b True)
      have g: "\<exists>bs. stored w w1 bs \<and> tracker w1 = tracker w
          \<and> (\<forall>b\<in>set bs. 0 < length b \<and> length b \<le> 100)
          \<and> (\<forall>k. Suc k < length bs \<longrightarrow> length (bs ! k) = 100)
          \<and> upsert_calls w1 = upsert_calls w + length bs
          \<and> map point_key (concat bs) @ [] = map (chunk_key e name) (enumerate 0 cs)"
        apply (rule exI[of _ bs])
        using h True by auto
      show ?thesis unfolding eq sum.case by (rule g)
    next
      case False
      show ?thesis
      proof (cases "upsert e pts w1")
        case (Inl a)
        obtain err w2 where a: "a = (err, w2)" by (cases a)
        have eq: "upload_points e name md cs w = Inl (err, w2)"
          using False by (simp add: upload_points_def Inr b Inl a)
        from upsert_Inl[OF Inl[unfolded a]]
        have f: "err = UnexpectedResponse" "stored w1 w2 []" "tracker w2 = tracker w1"
          "upsert_calls w2 = Suc (upsert_calls w1)"
          "upsert_fails e (upsert_calls w1) \<or> \<not> collection_exists w1"
          by auto
        have ce: "collection_exists w1 = collection_exists w"
          using h(1) by (simp add: stored_def)
        have st: "stored w w2 bs" using stored_trans[OF h(1) f(2)] by simp
        have g: "\<exists>bs rest. stored w w2 bs \<and> tracker w2 = tracker w
          \<and> (\<forall>b\<in>set bs. 0 < length b \<and> length b \<le> 100)
          \<and> (\<forall>k. Suc k < length bs \<longrightarrow> length (bs ! k) = 100)
          \<and> map point_key (concat bs) @ rest = map (chunk_key e name) (enumerate 0 cs)
          \<and> (if err = UnexpectedResponse
              then upsert_calls w2 = upsert_calls w + length bs + 1
                   \<and> (upsert_fails e (upsert_calls w + length bs) \<or> \<not> collection_exists w)
              else upsert_calls w2 = upsert_calls w + length bs)"
          apply (rule exI[of _ bs])
          apply (rule exI[of _ "map point_key pts"])
          using st h f ce by auto
        show ?thesis unfolding eq sum.case prod.case by (rule g)
      next
        case (Inr w2)
        have eq: "upload_points e name md cs w = Inr w2"
          using False by (simp add: upload_points_def \<open>upload_loop e name md (length cs) (enumerate 0 cs) [] w = Inr b\<close> b Inr)
        from upsert_Inr[OF Inr]
        have f: "stored w1 w2 [pts]" "tracker w2 = tracker w1"
          "upsert_calls w2 = Suc (upsert_calls w1)"
          by auto
        have st: "stored w w2 (bs @ [pts])" by (rule stored_trans[OF h(1) f(1)])
        have shape: "\<forall>k. Suc k < length (bs @ [pts]) \<longrightarrow> length ((bs @ [pts]) ! k) = 100"
          using h(3) by (auto simp: nth_append)
        have g: "\<exists>bs. stored w w2 bs \<and> tracker w2 = tracker w
          \<and> (\<forall>b\<in>set bs. 0 < length b \<and> length b \<le> 100)
          \<and> (\<forall>k. Suc k < length bs \<longrightarrow> length (bs ! k) = 100)
          \<and> upsert_calls w2 = upsert_calls w + length bs
          \<and> map point_key (concat bs) @ [] = map (chunk_key e name) (enumerate 0 cs)"
          apply (rule exI[of _ "bs @ [pts]"])
          using st shape h f False by auto
        show ?thesis unfolding eq sum.case by (rule g)
      qed
    qed
  qed
qed

lemma index_document_cases:
  assumes "index_document e force name w = (out, w')"
  shows "(w' = w \<and> out \<noteq> Indexed \<and> out \<noteq> Failed UnexpectedResponse)
       \<or> (\<exists>md cs err. upload_points e name md cs w = Inl (err, w') \<and> out = Failed err)
       \<or> (\<exists>md cs w2 pf. upload_points e name md cs w = Inr w2 \<and> out = Indexed
              \<and> w' = save_processed_files pf (w2\<lparr>clock_calls := Suc (clock_calls w2)\<rparr>))"
  using assms
  unfolding index_document_def get_object_def load_processed_files_def
    extract_text_from_pdf_def split_text_into_chunks_def time_now_def Let_def
  by (auto split: sum.splits prod.splits if_splits option.splits tracker_file.splits)

lemma index_document_run:
  assumes "index_document e force name w = (out, w')"
  shows "\<exists>bs. stored w w' bs
      \<and> (\<forall>b\<in>set bs. 0 < length b \<and> length b \<le> 100)
      \<and> (\<forall>k. Suc k < length bs \<longrightarrow> length (bs ! k) = 100)
      \<and> (\<forall>k<length (concat bs).
            point_key (concat bs ! k) = (record_id e name k, Some (PInt (int k))))
      \<and> (out \<noteq> Indexed \<longrightarrow> tracker w' = tracker w)
      \<and> (if out = Failed UnexpectedResponse
          then upsert_calls w' = upsert_calls w + length bs + 1
               \<and> (upsert_fails e (upsert_calls w + length bs) \<or> \<not> collection_exists w)
          else upsert_calls w' = upsert_calls w + length bs)"
proof -
  from index_document_cases[OF assms]
  consider (early) "w' = w" "out \<noteq> Indexed" "out \<noteq> Failed UnexpectedResponse"
    | (failed) md cs err where "upload_points e name md cs w = Inl (err, w')" "out = Failed err"
    | (indexed) md cs w2 pf where "upload_points e name md cs w = Inr w2" "out = Indexed"
        "w' = save_processed_files pf (w2\<lparr>clock_calls := Suc (clock_calls w2)\<rparr>)"
    by blast
  then show ?thesis
  proof cases
    case early
    show ?thesis
      apply (rule exI[of _ "[]"])
      using early by (simp add: stored_def)
  next
    case failed
    from upload_points_inv[where e=e and name=name and md=md and cs=cs and w=w] failed(1)
    obtain bs rest where h: "stored w w' bs" "tracker w' = tracker w"
      "\<forall>b\<in>set bs. 0 < length b \<and> length b \<le> 100"
      "\<forall>k. Suc k < length bs \<longrightarrow> length (bs ! k) = 100"
      "map point_key (concat bs) @ rest = map (chunk_key e name) (enumerate 0 cs)"
      "if err = UnexpectedResponse
         then upsert_calls w' = upsert_calls w + length bs + 1
              \<and> (upsert_fails e (upsert_calls w + length bs) \<or> \<not> collection_exists w)
         else upsert_calls w' = upsert_calls w + length bs"
      by auto
    have keys: "\<forall>k<length (concat bs).
        point_key (concat bs ! k) = (record_id e name k, Some (PInt (int k)))"
      using keys_prefix[OF h(5)] by blast
    show ?thesis
      apply (rule exI[of _ bs])
      using h(1-4) h(6) keys failed(2) by (auto split: if_splits)
  next
    case indexed
    from upload_points_inv[where e=e and name=name and md=md and cs=cs and w=w] indexed(1)
    obtain bs where h: "stored w w2 bs" "tracker w2 = tracker w"
      "\<forall>b\<in>set bs. 0 < length b \<and> length b \<le> 100"
      "\<forall>k. Suc k < length bs \<longrightarrow> length (bs ! k) = 100"
      "upsert_calls w2 = upsert_calls w + length bs"
      "map point_key (concat bs) @ [] = map (chunk_key e name) (enumerate 0 cs)"
      by auto
    have keys: "\<forall>k<length (concat bs).
        point_key (concat bs ! k) = (record_id e name k, Some (PInt (int k)))"
      using keys_prefix[OF h(6)] by blast
    have st: "stored w w' bs"
      using h(1) by (simp add: stored_def indexed(3) save_processed_files_def)
    have uc: "upsert_calls w' = upsert_calls w + length bs"
      using h(5) by (simp add: indexed(3) save_processed_files_def)
    show ?thesis
      apply (rule exI[of _ bs])
      using st uc h(3,4) keys indexed(2) by simp
  qed
qed

section \<open>Runs on the concrete inputs\<close>

lemma env0_simps:
  "encode env0 c = Some [1]" "upsert_fails env0 n = False" "time_time env0 n = real n"
  "encode env_rejecting c = Some [1]" "upsert_fails env_rejecting n = True"
  "time_time env_rejecting n = real n"
  "pdf_reader env_rejecting = pdf_reader env0" "md5 env_rejecting = md5 env0"
  by (simp_all add: env0_def env_rejecting_def)

lemma extract_text: "extract_text_from_pdf env0 ''%PDF-text'' = Inr (''hello world'', 1)"
  by (simp add: extract_text_from_pdf_def env0_def strip_def isspace_def)

lemma extract_text_rejecting:
  "extract_text_from_pdf env_rejecting ''%PDF-text'' = Inr (''hello world'', 1)"
  using extract_text by (simp add: extract_text_from_pdf_def env0_simps)

lemma split_hello: "split_text_into_chunks ''hello world'' CHUNK_SIZE = Inr [''hello world'']"
  using split_text_into_chunks_eq[of CHUNK_SIZE "''hello world''"]
  by (simp add: CHUNK_SIZE_def)

lemma world0_simps:
  "get_object world0 ''a.pdf'' = Inr ''%PDF-text''"
  "load_processed_files world0 = Inr []"
  "get_object world_corrupt ''a.pdf'' = Inr ''%PDF-text''"
  "load_processed_files world_corrupt = Inl JSONDecodeError"
  "tracker world_corrupt = Unparseable" "tracker world0 = Absent"
  "upsert_calls world0 = 0" "collection_exists world0" "upsert_log world0 = []"
  "clock_calls world0 = 0"
  by (simp_all add: get_object_def load_processed_files_def world_corrupt_def world0_def)

lemma run_a_pdf: "fst (index_document env0 force ''a.pdf'' world0) = Indexed"
  by (simp add: index_document_def world0_simps should_process_def lower_a_pdf extract_text
      split_hello upload_points_def chunk_id_eq time_now_def upsert_def env0_simps Let_def)

lemma run_a_pdf_rejecting:
  "index_document env_rejecting False ''a.pdf'' world0
     = (Failed UnexpectedResponse, world0\<lparr>clock_calls := 1, upsert_calls := 1\<rparr>)"
  by (simp add: index_document_def world0_simps should_process_def lower_a_pdf
      extract_text_rejecting split_hello upload_points_def chunk_id_eq time_now_def upsert_def
      env0_simps Let_def)

section \<open>The record identifier and the batches of a document\<close>

text \<open>
  C6. The record identifier is a function of the document identifier and the chunk index
  alone: \<^verbatim>\<open>chunk_id\<close> never raises and returns the number that the first 16 hexadecimal
  digits of the MD5 digest of the UTF-8 bytes of \<^verbatim>\<open>f"{file_name}-{i}"\<close> denote, that is
  the upper 64 bits of the digest, a number below \<open>2 ^ 64\<close>. It does not depend on the
  state, the clock, the embedding or the store: two environments with the same digest
  function give the same identifier. Whatever \<^verbatim>\<open>index_document\<close> stores for a document,
  the \<open>k\<close>-th point it stores carries the identifier of the document's name and \<open>k\<close>.
\<close>

theorem record_identifier_deterministic:
  "chunk_id e name i = Inr (record_id e name i)
   \<and> record_id e name i = unat (md5 e (utf8_encode (name @ ''-'' @ str_nat i))) div 2 ^ 64
   \<and> record_id e name i < 2 ^ 64
   \<and> (md5 e' = md5 e \<longrightarrow> chunk_id e' name i = chunk_id e name i)
   \<and> (index_document e FORCE_REINDEX name w = (out, w') \<longrightarrow>
        (\<exists>bs. upsert_log w' = upsert_log w @ bs
            \<and> (\<forall>k<length (concat bs). point_id (concat bs ! k) = record_id e name k)))"
proof (intro conjI impI)
  show "chunk_id e name i = Inr (record_id e name i)" by (rule chunk_id_eq)
  show "record_id e name i = unat (md5 e (utf8_encode (name @ ''-'' @ str_nat i))) div 2 ^ 64"
    by (simp only: record_id_def)
  show "record_id e name i < 2 ^ 64" by (rule record_id_bound)
next
  assume "md5 e' = md5 e"
  then show "chunk_id e' name i = chunk_id e name i" by (simp add: chunk_id_def)
next
  assume "index_document e FORCE_REINDEX name w = (out, w')"
  from index_document_run[OF this]
  obtain bs where h: "stored w w' bs"
    "\<forall>k<length (concat bs). point_key (concat bs ! k) = (record_id e name k, Some (PInt (int k)))"
    by blast
  have "upsert_log w' = upsert_log w @ bs" using h(1) by (simp add: stored_def)
  moreover have "\<forall>k<length (concat bs). point_id (concat bs ! k) = record_id e name k"
    using h(2) by (simp add: point_key_def)
  ultimately show "\<exists>bs. upsert_log w' = upsert_log w @ bs
      \<and> (\<forall>k<length (concat bs). point_id (concat bs ! k) = record_id e name k)"
    by blast
qed

theorem record_identifier_deterministic_witness:
  "md5 env_rejecting = md5 env0
   \<and> chunk_id env_rejecting ''a.pdf'' 0 = chunk_id env0 ''a.pdf'' 0
   \<and> chunk_id env0 ''a.pdf'' 0 = Inr (record_id env0 ''a.pdf'' 0)
   \<and> index_document env_rejecting False ''a.pdf'' world0
        = (Failed UnexpectedResponse, world0\<lparr>clock_calls := 1, upsert_calls := 1\<rparr>)
   \<and> (\<exists>bs. upsert_log (world0\<lparr>clock_calls := 1, upsert_calls := 1\<rparr>) = upsert_log world0 @ bs)"
proof -
  have m: "md5 env_rejecting = md5 env0" by (rule env0_simps)
  note t = record_identifier_deterministic[of env0 "''a.pdf''" 0 env_rejecting False world0
      "Failed UnexpectedResponse" "world0\<lparr>clock_calls := 1, upsert_calls := 1\<rparr>"]
  from t m have a: "chunk_id env_rejecting ''a.pdf'' 0 = chunk_id env0 ''a.pdf'' 0" by blast
  from t have b: "chunk_id env0 ''a.pdf'' 0 = Inr (record_id env0 ''a.pdf'' 0)" by blast
  note t' = record_identifier_deterministic[of env_rejecting "''a.pdf''" 0 env0 False world0
      "Failed UnexpectedResponse" "world0\<lparr>clock_calls := 1, upsert_calls := 1\<rparr>"]
  from t' run_a_pdf_rejecting
  have c: "\<exists>bs. upsert_log (world0\<lparr>clock_calls := 1, upsert_calls := 1\<rparr>) = upsert_log world0 @ bs"
    by blast
  from m a b c run_a_pdf_rejecting show ?thesis by blast
qed

subsection \<open>The stored points are the points of the chunks\<close>











subsection \<open>A document of 101 chunks\<close>














section \<open>Reading the tracker file\<close>

lemma index_document_unparseable:
  assumes "tracker w = Unparseable"
  shows "\<exists>err. index_document e force name w = (Failed err, w)"
  using assms
  by (simp add: index_document_def load_processed_files_def Let_def split: sum.splits)

lemma index_documents_unparseable:
  assumes "tracker w = Unparseable"
  shows "snd (index_documents e force names w) = w
       \<and> length (fst (index_documents e force names w)) = length names"
proof (induction names)
  case Nil
  show ?case by simp
next
  case (Cons name names)
  from index_document_unparseable[OF assms, of e force name]
  obtain err where "index_document e force name w = (Failed err, w)" by blast
  with Cons show ?case by (simp add: split_beta)
qed

text \<open>
  C4, as the code has it. When the tracker file is missing, \<^verbatim>\<open>load_processed_files\<close>
  returns the empty dictionary, no document is skipped as unchanged, and indexing goes on
  as with no prior state. When the file is there and \<^verbatim>\<open>json.load\<close> cannot parse it, the
  load raises: every document whose object can be fetched fails with that error, and nothing
  is stored or recorded for it; the failure stays inside \<^verbatim>\<open>index_document\<close>, so the loop
  goes through all documents and leaves the state as it was.
\<close>

theorem tracker_read_failure:
  "(tracker w = Absent \<longrightarrow>
      load_processed_files w = Inr []
      \<and> should_process FORCE_REINDEX [] name file_hash
      \<and> fst (index_document e FORCE_REINDEX name w) \<noteq> Skipped Unchanged)
   \<and> (tracker w = Unparseable \<longrightarrow>
      load_processed_files w = Inl JSONDecodeError
      \<and> (get_object w name = Inr data \<longrightarrow>
            index_document e FORCE_REINDEX name w = (Failed JSONDecodeError, w))
      \<and> snd (index_documents e FORCE_REINDEX names w) = w
      \<and> length (fst (index_documents e FORCE_REINDEX names w)) = length names)"
proof (intro conjI impI)
  assume a: "tracker w = Absent"
  show "load_processed_files w = Inr []" using a by (simp add: load_processed_files_def)
  show "should_process FORCE_REINDEX [] name file_hash" by (simp add: should_process_def)
  show "fst (index_document e FORCE_REINDEX name w) \<noteq> Skipped Unchanged"
    using a
    by (auto simp: index_document_def load_processed_files_def should_process_def Let_def
        split: sum.splits prod.splits)
next
  assume u: "tracker w = Unparseable"
  show "load_processed_files w = Inl JSONDecodeError"
    using u by (simp add: load_processed_files_def)
  show "snd (index_documents e FORCE_REINDEX names w) = w"
    using index_documents_unparseable[OF u] by blast
  show "length (fst (index_documents e FORCE_REINDEX names w)) = length names"
    using index_documents_unparseable[OF u] by blast
next
  assume u: "tracker w = Unparseable" and g: "get_object w name = Inr data"
  show "index_document e FORCE_REINDEX name w = (Failed JSONDecodeError, w)"
    using u g by (simp add: index_document_def load_processed_files_def Let_def)
qed

theorem tracker_read_failure_witness:
  "tracker world0 = Absent
   \<and> load_processed_files world0 = Inr []
   \<and> fst (index_document env0 False ''a.pdf'' world0) \<noteq> Skipped Unchanged
   \<and> tracker world_corrupt = Unparseable
   \<and> get_object world_corrupt ''a.pdf'' = Inr ''%PDF-text''
   \<and> index_document env0 False ''a.pdf'' world_corrupt = (Failed JSONDecodeError, world_corrupt)
   \<and> snd (index_documents env0 False [''a.pdf'', ''b.pdf''] world_corrupt) = world_corrupt"
proof -
  have a: "tracker world0 = Absent" and u: "tracker world_corrupt = Unparseable"
    and g: "get_object world_corrupt ''a.pdf'' = Inr ''%PDF-text''"
    by (simp_all add: world0_simps)
  note t0 = tracker_read_failure[of world0 False "''a.pdf''" "[]" env0 "[]" "[]"]
  note t1 = tracker_read_failure[of world_corrupt False "''a.pdf''" "[]" env0 "''%PDF-text''"
      "[''a.pdf'', ''b.pdf'']"]
  from t0 a have p: "load_processed_files world0 = Inr []"
    "fst (index_document env0 False ''a.pdf'' world0) \<noteq> Skipped Unchanged"
    by blast+
  from t1 u g have q:
    "index_document env0 False ''a.pdf'' world_corrupt = (Failed JSONDecodeError, world_corrupt)"
    "snd (index_documents env0 False [''a.pdf'', ''b.pdf''] world_corrupt) = world_corrupt"
    by blast+
  from a u g p q show ?thesis by blast
qed

text \<open>
  C4 as the specification states it does not hold for a tracker file that cannot be parsed: the load is not the
  empty dictionary, and the document, which is indexed when the file is missing, fails.
\<close>

theorem tracker_read_failure_counterexample:
  "tracker world_corrupt = Unparseable
   \<and> load_processed_files world_corrupt \<noteq> Inr []
   \<and> index_document env0 False ''a.pdf'' world_corrupt = (Failed JSONDecodeError, world_corrupt)
   \<and> fst (index_document env0 False ''a.pdf'' (world_corrupt\<lparr>tracker := Absent\<rparr>)) = Indexed"
proof -
  have w: "world_corrupt\<lparr>tracker := Absent\<rparr> = world0"
    by (simp add: world_corrupt_def world0_def)
  have f: "index_document env0 False ''a.pdf'' world_corrupt = (Failed JSONDecodeError, world_corrupt)"
    by (simp add: index_document_def world0_simps Let_def)
  from f w run_a_pdf[of False] show ?thesis by (simp add: world0_simps)
qed

section \<open>Properties of the retrieval service\<close>

lemma make_document_score:
  "make_document s hit = Inr d \<Longrightarrow> DocumentChunk.score d = ScoredPoint.score hit"
  by (auto simp: make_document_def Let_def split: option.splits pyval.splits)

lemma process_hits_step:
  "process_hits s (hit # hits) docs =
     (case make_document s hit of
        Inr d \<Rightarrow> process_hits s hits (docs @ [d])
      | Inl err \<Rightarrow> if err = KeyError then process_hits s hits docs else Inl err)"
  by (simp split: sum.splits py_error.splits)

lemma process_hits_scores:
  "process_hits s hits docs = Inr out \<Longrightarrow>
   map DocumentChunk.score out
     = map DocumentChunk.score docs
       @ map ScoredPoint.score (filter (\<lambda>h. \<not> isl (make_document s h)) hits)"
proof (induction hits arbitrary: docs)
  case Nil
  then show ?case by simp
next
  case (Cons hit hits)
  show ?case
  proof (cases "make_document s hit")
    case (Inl err)
    with Cons.prems have "err = KeyError" "process_hits s hits docs = Inr out"
      by (auto simp: process_hits_step simp del: process_hits.simps split: if_splits)
    with Cons.IH[of docs] Inl show ?thesis by simp
  next
    case (Inr d)
    with Cons.prems have "process_hits s hits (docs @ [d]) = Inr out"
      by (simp add: process_hits_step del: process_hits.simps)
    with Cons.IH[of "docs @ [d]"] Inr make_document_score[OF Inr] show ?thesis by simp
  qed
qed

lemma retrieve_docs_Inr:
  assumes "retrieve_docs s request = Inr response"
  shows "\<exists>qv hits. embed s (QueryRequest.query request) = Inr qv
       \<and> search s collection_name qv (limit request) (threshold request) = Inr hits
       \<and> process_hits s hits [] = Inr (documents response)
       \<and> QueryResponse.query response = QueryRequest.query request"
  using assms
  by (auto simp: retrieve_docs_def retrieve_body_def Let_def split: sum.splits py_error.splits)

text \<open>
  C8. The service itself neither filters nor sorts: it asks the vector store for the
  \<open>limit\<close> nearest records with a score of at least \<open>threshold\<close> and maps the hits, in
  the order the store returns them, leaving out those without text. So when the store
  answers the request's search as its interface says (at most \<open>N\<close> hits, every score at
  least the threshold, ordered by descending score), the response has at most \<open>N\<close>
  documents, every document's score is at least the threshold, and the documents are
  ordered by descending score.
\<close>

theorem retrieve_respects_limit_threshold_order:
  assumes "retrieve_docs s request = Inr response"
    and "limit request = Some N" and "1 \<le> N"
    and "threshold request = Some t" and "0 \<le> t" and "t \<le> 1"
    and "embed s (QueryRequest.query request) = Inr qv"
    and "search s collection_name qv (Some N) (Some t) = Inr hits"
    and "int (length hits) \<le> N"
    and "\<forall>h\<in>set hits. t \<le> ScoredPoint.score h"
    and "sorted_wrt (\<lambda>a b. b \<le> a) (map ScoredPoint.score hits)"
  shows "int (length (documents response)) \<le> N
       \<and> (\<forall>d\<in>set (documents response). t \<le> DocumentChunk.score d)
       \<and> sorted_wrt (\<lambda>a b. b \<le> a) (map DocumentChunk.score (documents response))"
proof -
  from retrieve_docs_Inr[OF assms(1)] assms(2,4,7,8)
  have p: "process_hits s hits [] = Inr (documents response)" by auto
  define kept where "kept = filter (\<lambda>h. \<not> isl (make_document s h)) hits"
  have sc: "map DocumentChunk.score (documents response) = map ScoredPoint.score kept"
    using process_hits_scores[OF p] by (simp add: kept_def)
  have "length (documents response) = length kept"
    using sc by (metis length_map)
  moreover have "length kept \<le> length hits" by (simp add: kept_def)
  ultimately have l: "int (length (documents response)) \<le> N" using assms(9) by simp
  have "\<forall>x\<in>set (map ScoredPoint.score kept). t \<le> x"
    using assms(10) by (auto simp: kept_def)
  then have th: "\<forall>d\<in>set (documents response). t \<le> DocumentChunk.score d"
    unfolding sc[symmetric] by simp
  have "sorted_wrt (\<lambda>a b. b \<le> a) (map ScoredPoint.score kept)"
    using assms(11) unfolding kept_def sorted_wrt_map by (rule sorted_wrt_filter)
  then have so: "sorted_wrt (\<lambda>a b. b \<le> a) (map DocumentChunk.score (documents response))"
    by (simp only: sc)
  from l th so show ?thesis by blast
qed

lemma services_of_simps:
  "embed (services_of hits) q = Inr [1]"
  "search (services_of hits) c v l t = Inr hits"
  "validate_str (services_of hits) = strict_str"
  "validate_int (services_of hits) = strict_int"
  "clock (services_of hits) n = real n"
  by (simp_all add: services_of_def)

lemma request0_simps:
  "QueryRequest.query request0 = ''revenue growth''"
  "limit request0 = Some 3" "threshold request0 = Some (7 / 10)"
  by (simp_all add: request0_def)

lemma make_document_good:
  "make_document (services_of hits) good_hit
     = Inr \<lparr>text = ''alpha'', file_name = ''a.pdf'', score = 9 / 10, page_count = Some 1,
            chunk_index = Some 0, total_chunks = Some 1\<rparr>"
  by (simp add: make_document_def good_hit_def dict_get_def services_of_simps strict_str_def
      strict_int_def validate_optional_int_def Let_def)

lemma make_document_bare:
  "make_document (services_of hits) bare_hit
     = Inr \<lparr>text = ''beta'', file_name = ''Unknown'', score = 8 / 10, page_count = None,
            chunk_index = None, total_chunks = None\<rparr>"
  by (simp add: make_document_def bare_hit_def dict_get_def services_of_simps strict_str_def
      strict_int_def validate_optional_int_def Let_def)

lemma make_document_textless:
  "make_document (services_of hits) textless_hit = Inl KeyError"
  by (simp add: make_document_def textless_hit_def dict_get_def Let_def)

lemma make_document_malformed:
  "make_document (services_of hits) malformed_hit = Inl AttributeError"
  by (simp add: make_document_def malformed_hit_def dict_get_def Let_def)

lemma make_document_mistyped:
  "make_document (services_of hits) mistyped_hit = Inl ValidationError"
  by (simp add: make_document_def mistyped_hit_def dict_get_def services_of_simps strict_str_def
      strict_int_def validate_optional_int_def Let_def)

lemma retrieve_three:
  "retrieve_docs (services_of [good_hit, textless_hit, bare_hit]) request0
     = Inr \<lparr>documents =
              [\<lparr>text = ''alpha'', file_name = ''a.pdf'', score = 9 / 10, page_count = Some 1,
                chunk_index = Some 0, total_chunks = Some 1\<rparr>,
               \<lparr>text = ''beta'', file_name = ''Unknown'', score = 8 / 10, page_count = None,
                chunk_index = None, total_chunks = None\<rparr>],
            query = ''revenue growth'', took_ms = 1000\<rparr>"
  by (simp add: retrieve_docs_def retrieve_body_def services_of_simps request0_simps
      make_document_good make_document_bare make_document_textless Let_def)

theorem retrieve_respects_limit_threshold_order_witness:
  "limit request0 = Some 3 \<and> threshold request0 = Some (7 / 10)
   \<and> search (services_of [good_hit, textless_hit, bare_hit]) collection_name [1] (Some 3) (Some (7 / 10))
        = Inr [good_hit, textless_hit, bare_hit]
   \<and> (\<exists>response. retrieve_docs (services_of [good_hit, textless_hit, bare_hit]) request0 = Inr response
        \<and> length (documents response) = 2
        \<and> int (length (documents response)) \<le> 3
        \<and> list_all (\<lambda>d. 7 / 10 \<le> DocumentChunk.score d) (documents response)
        \<and> sorted_wrt (\<lambda>a b. b \<le> a) (map DocumentChunk.score (documents response)))"
proof -
  let ?s = "services_of [good_hit, textless_hit, bare_hit]"
  let ?r = "\<lparr>documents =
              [\<lparr>text = ''alpha'', file_name = ''a.pdf'', score = 9 / 10, page_count = Some 1,
                chunk_index = Some 0, total_chunks = Some 1\<rparr>,
               \<lparr>text = ''beta'', file_name = ''Unknown'', score = 8 / 10, page_count = None,
                chunk_index = None, total_chunks = None\<rparr>],
            query = ''revenue growth'', took_ms = 1000\<rparr>"
  have h1: "retrieve_docs ?s request0 = Inr ?r" by (rule retrieve_three)
  have h2: "limit request0 = Some 3" and h4: "threshold request0 = Some (7 / 10)"
    by (rule request0_simps)+
  have h3: "(1::int) \<le> 3" and h5: "(0::real) \<le> 7 / 10" and h6: "(7 / 10 :: real) \<le> 1"
    by simp_all
  have h7: "embed ?s (QueryRequest.query request0) = Inr [1]" by (rule services_of_simps)
  have h8: "search ?s collection_name [1] (Some 3) (Some (7 / 10)) = Inr [good_hit, textless_hit, bare_hit]"
    by (rule services_of_simps)
  have h9: "int (length [good_hit, textless_hit, bare_hit]) \<le> 3" by simp
  have h10: "\<forall>h\<in>set [good_hit, textless_hit, bare_hit]. 7 / 10 \<le> ScoredPoint.score h"
    by (simp add: good_hit_def textless_hit_def bare_hit_def)
  have h11: "sorted_wrt (\<lambda>a b. b \<le> a) (map ScoredPoint.score [good_hit, textless_hit, bare_hit])"
    by (simp add: good_hit_def textless_hit_def bare_hit_def)
  from retrieve_respects_limit_threshold_order[OF h1 h2 h3 h4 h5 h6 h7 h8 h9 h10 h11]
  have c: "int (length (documents ?r)) \<le> 3"
    "list_all (\<lambda>d. 7 / 10 \<le> DocumentChunk.score d) (documents ?r)"
    "sorted_wrt (\<lambda>a b. b \<le> a) (map DocumentChunk.score (documents ?r))"
    by (simp_all add: list_all_iff)
  have l: "length (documents ?r) = 2" by simp
  from h1 h2 h4 h8 c l show ?thesis by blast
qed

section \<open>Hits with missing or malformed payloads\<close>

lemma process_hits_append:
  "process_hits s (xs @ ys) docs =
     (case process_hits s xs docs of Inl err \<Rightarrow> Inl err | Inr docs1 \<Rightarrow> process_hits s ys docs1)"
proof (induction xs arbitrary: docs)
  case Nil
  show ?case by simp
next
  case (Cons x xs)
  show ?case
    by (simp add: process_hits_step Cons.IH del: process_hits.simps split: sum.splits)
qed

lemma make_document_errors:
  "make_document s hit = Inl err \<Longrightarrow>
   err = KeyError \<or> err = AttributeError \<or> err = ValidationError"
  by (auto simp: make_document_def Let_def split: option.splits pyval.splits)

lemma make_document_no_text:
  "payload hit = Some pl \<Longrightarrow> map_of pl ''text'' = None \<Longrightarrow> make_document s hit = Inl KeyError"
  by (simp add: make_document_def Let_def)

lemma retrieve_docs_of_hits:
  assumes "embed s (QueryRequest.query request) = Inr qv"
    and "search s collection_name qv (limit request) (threshold request) = Inr hits"
  shows "retrieve_docs s request =
     (case process_hits s hits [] of
        Inl err \<Rightarrow>
          (if err = UnexpectedResponse
           then Inl \<lparr>status_code = 500, detail = Qdrant_search_error\<rparr>
           else Inl \<lparr>status_code = 500, detail = Internal_server_error\<rparr>)
      | Inr docs \<Rightarrow>
          Inr \<lparr>documents = docs, query = QueryRequest.query request,
               took_ms = (clock s 1 - clock s 0) * 1000\<rparr>)"
  using assms
  by (simp add: retrieve_docs_def retrieve_body_def Let_def split: sum.splits py_error.splits)

text \<open>
  C9, as the code has it. Only a KeyError is caught for a single hit. A hit whose payload
  is a dictionary without \<^verbatim>\<open>text\<close> raises it: the hit is left out, and the hits before
  and after it are assembled as if it had not been returned. A payload that is malformed
  in another way raises another exception (AttributeError when the payload is \<^verbatim>\<open>None\<close>
  or its \<^verbatim>\<open>metadata\<close> is not a dictionary, a validation error when a field has the wrong
  type), which leaves the loop: if no earlier hit has failed so, the request ends with
  status 500.
\<close>

theorem hit_without_text_dropped:
  "(payload hit = Some pl \<and> map_of pl ''text'' = None \<longrightarrow>
      make_document s hit = Inl KeyError
      \<and> process_hits s (before @ hit # after) docs = process_hits s (before @ after) docs
      \<and> (embed s (QueryRequest.query request) = Inr qv
           \<and> search s collection_name qv (limit request) (threshold request)
                = Inr (before @ hit # after)
           \<and> process_hits s (before @ after) [] = Inr kept
         \<longrightarrow> retrieve_docs s request
               = Inr \<lparr>documents = kept, query = QueryRequest.query request,
                      took_ms = (clock s 1 - clock s 0) * 1000\<rparr>))
   \<and> (payload hit = None \<longrightarrow> make_document s hit = Inl AttributeError)
   \<and> (payload hit = Some pl \<and> map_of pl ''text'' = Some tv \<and> map_of pl ''metadata'' = Some m
        \<and> (\<forall>md. m \<noteq> PDict md) \<longrightarrow> make_document s hit = Inl AttributeError)
   \<and> (make_document s hit = Inl err \<and> err \<noteq> KeyError
        \<and> process_hits s before docs = Inr docs1 \<longrightarrow>
          process_hits s (before @ hit # after) docs = Inl err
          \<and> (embed s (QueryRequest.query request) = Inr qv
               \<and> search s collection_name qv (limit request) (threshold request)
                    = Inr (before @ hit # after)
               \<and> docs = []
             \<longrightarrow> retrieve_docs s request
                   = Inl \<lparr>status_code = 500, detail = Internal_server_error\<rparr>))"
proof (intro conjI impI)
  assume a: "payload hit = Some pl \<and> map_of pl ''text'' = None"
  then show k: "make_document s hit = Inl KeyError"
    using make_document_no_text by blast
  show d: "process_hits s (before @ hit # after) docs = process_hits s (before @ after) docs"
    by (simp add: process_hits_append process_hits_step k del: process_hits.simps
        split: sum.splits)
  assume b: "embed s (QueryRequest.query request) = Inr qv
           \<and> search s collection_name qv (limit request) (threshold request)
                = Inr (before @ hit # after)
           \<and> process_hits s (before @ after) [] = Inr kept"
  have "process_hits s (before @ hit # after) [] = Inr kept"
    using b by (simp add: process_hits_append process_hits_step k del: process_hits.simps
        split: sum.splits)
  then show "retrieve_docs s request
               = Inr \<lparr>documents = kept, query = QueryRequest.query request,
                      took_ms = (clock s 1 - clock s 0) * 1000\<rparr>"
    using b retrieve_docs_of_hits[of s request qv "before @ hit # after"] by simp
next
  assume "payload hit = None"
  then show "make_document s hit = Inl AttributeError" by (simp add: make_document_def)
next
  assume "payload hit = Some pl \<and> map_of pl ''text'' = Some tv \<and> map_of pl ''metadata'' = Some m
        \<and> (\<forall>md. m \<noteq> PDict md)"
  then show "make_document s hit = Inl AttributeError"
    by (cases m) (simp_all add: make_document_def dict_get_def Let_def)
next
  assume a: "make_document s hit = Inl err \<and> err \<noteq> KeyError
        \<and> process_hits s before docs = Inr docs1"
  then show f: "process_hits s (before @ hit # after) docs = Inl err"
    by (simp add: process_hits_append process_hits_step del: process_hits.simps)
  assume b: "embed s (QueryRequest.query request) = Inr qv
               \<and> search s collection_name qv (limit request) (threshold request)
                    = Inr (before @ hit # after)
               \<and> docs = []"
  have "err \<noteq> UnexpectedResponse" using a make_document_errors[of s hit err] by auto
  then show "retrieve_docs s request = Inl \<lparr>status_code = 500, detail = Internal_server_error\<rparr>"
    using b f retrieve_docs_of_hits[of s request qv "before @ hit # after"] by simp
qed

lemma retrieve_malformed:
  "retrieve_docs (services_of [good_hit, malformed_hit, bare_hit]) request0
     = Inl \<lparr>status_code = 500, detail = Internal_server_error\<rparr>"
  by (simp add: retrieve_docs_def retrieve_body_def services_of_simps request0_simps
      make_document_good make_document_malformed Let_def)

lemma retrieve_two:
  "retrieve_docs (services_of [good_hit, bare_hit]) request0
     = Inr \<lparr>documents =
              [\<lparr>text = ''alpha'', file_name = ''a.pdf'', score = 9 / 10, page_count = Some 1,
                chunk_index = Some 0, total_chunks = Some 1\<rparr>,
               \<lparr>text = ''beta'', file_name = ''Unknown'', score = 8 / 10, page_count = None,
                chunk_index = None, total_chunks = None\<rparr>],
            query = ''revenue growth'', took_ms = 1000\<rparr>"
  by (simp add: retrieve_docs_def retrieve_body_def services_of_simps request0_simps
      make_document_good make_document_bare Let_def)

theorem hit_without_text_dropped_witness:
  "payload textless_hit = Some [(''metadata'', PDict [])]
   \<and> map_of [(''metadata'', PDict [])] ''text'' = None
   \<and> make_document (services_of [good_hit, textless_hit, bare_hit]) textless_hit = Inl KeyError
   \<and> process_hits (services_of [good_hit, textless_hit, bare_hit]) ([good_hit] @ textless_hit # [bare_hit]) []
       = process_hits (services_of [good_hit, textless_hit, bare_hit]) ([good_hit] @ [bare_hit]) []
   \<and> make_document (services_of [good_hit, malformed_hit, bare_hit]) malformed_hit = Inl AttributeError
   \<and> process_hits (services_of [good_hit, malformed_hit, bare_hit]) ([good_hit] @ malformed_hit # [bare_hit]) []
       = Inl AttributeError
   \<and> retrieve_docs (services_of [good_hit, malformed_hit, bare_hit]) request0
       = Inl \<lparr>status_code = 500, detail = Internal_server_error\<rparr>"
proof -
  let ?s = "services_of [good_hit, textless_hit, bare_hit]"
  let ?s' = "services_of [good_hit, malformed_hit, bare_hit]"
  have p: "payload textless_hit = Some [(''metadata'', PDict [])]"
    by (simp add: textless_hit_def)
  have m: "map_of [(''metadata'', PDict [])] ''text'' = None" by simp
  note t = hit_without_text_dropped[of textless_hit "[(''metadata'', PDict [])]" ?s
      "[good_hit]" "[bare_hit]" "[]"]
  from t p m have a: "make_document ?s textless_hit = Inl KeyError"
    "process_hits ?s ([good_hit] @ textless_hit # [bare_hit]) []
       = process_hits ?s ([good_hit] @ [bare_hit]) []"
    by blast+
  have e: "make_document ?s' malformed_hit = Inl AttributeError \<and> AttributeError \<noteq> KeyError
      \<and> process_hits ?s' [good_hit] [] = Inr [\<lparr>text = ''alpha'', file_name = ''a.pdf'',
            score = 9 / 10, page_count = Some 1, chunk_index = Some 0, total_chunks = Some 1\<rparr>]"
    by (simp add: make_document_malformed make_document_good)
  have q: "embed ?s' (QueryRequest.query request0) = Inr [1]
      \<and> search ?s' collection_name [1] (limit request0) (threshold request0)
          = Inr ([good_hit] @ malformed_hit # [bare_hit])
      \<and> ([] :: DocumentChunk list) = []"
    by (simp add: services_of_simps)
  note t' = hit_without_text_dropped[of malformed_hit _ ?s' "[good_hit]" "[bare_hit]" "[]"
      request0 "[1]" _ _ _ AttributeError]
  from t' e have b: "process_hits ?s' ([good_hit] @ malformed_hit # [bare_hit]) [] = Inl AttributeError"
    by blast
  from t' e q have c: "retrieve_docs ?s' request0
      = Inl \<lparr>status_code = 500, detail = Internal_server_error\<rparr>"
    by blast
  from p m a e b c show ?thesis by blast
qed

text \<open>
  C9 as the specification states it does not hold for a hit whose \<^verbatim>\<open>metadata\<close> is not a
  dictionary: the request
  whose other two hits alone give a response of two documents ends with status 500.
\<close>

theorem hit_without_text_dropped_counterexample:
  "make_document (services_of [good_hit, malformed_hit, bare_hit]) malformed_hit
     = Inl AttributeError
   \<and> retrieve_docs (services_of [good_hit, malformed_hit, bare_hit]) request0
       = Inl \<lparr>status_code = 500, detail = Internal_server_error\<rparr>
   \<and> retrieve_docs (services_of [good_hit, bare_hit]) request0
       = Inr \<lparr>documents =
                [\<lparr>text = ''alpha'', file_name = ''a.pdf'', score = 9 / 10, page_count = Some 1,
                  chunk_index = Some 0, total_chunks = Some 1\<rparr>,
                 \<lparr>text = ''beta'', file_name = ''Unknown'', score = 8 / 10, page_count = None,
                  chunk_index = None, total_chunks = None\<rparr>],
              query = ''revenue growth'', took_ms = 1000\<rparr>"
  using make_document_malformed[of "[good_hit, malformed_hit, bare_hit]"] retrieve_malformed
    retrieve_two
  by simp

text \<open>
  C10, as the code has it. A hit with \<^verbatim>\<open>text\<close> and without \<^verbatim>\<open>metadata\<close> (or with a
  \<^verbatim>\<open>metadata\<close> dictionary that lacks fields) is kept, provided the fields that are there
  pass the validation of the response model: its document has \<^verbatim>\<open>file_name\<close>
  \<^verbatim>\<open>"Unknown"\<close> when \<^verbatim>\<open>metadata\<close> or its \<^verbatim>\<open>file_name\<close> is absent, \<^verbatim>\<open>page_count\<close> null when
  \<^verbatim>\<open>metadata\<close> or its \<^verbatim>\<open>page_count\<close> is absent, and \<^verbatim>\<open>chunk_index\<close> and
  \<^verbatim>\<open>total_chunks\<close> null when the payload lacks them.
\<close>

theorem defaults_for_absent_fields:
  assumes "payload hit = Some pl"
    and "map_of pl ''text'' = Some tv" and "validate_str s tv = Some t"
    and "dict_get pl ''metadata'' (PDict []) = PDict md"
    and "validate_str s (dict_get md ''file_name'' (PStr ''Unknown'')) = Some f"
    and "validate_str s (PStr ''Unknown'') = Some ''Unknown''"
    and "validate_optional_int s (dict_get md ''page_count'' PNone) = Some pc"
    and "validate_optional_int s (dict_get pl ''chunk_index'' PNone) = Some ci"
    and "validate_optional_int s (dict_get pl ''total_chunks'' PNone) = Some tc"
  shows "make_document s hit
           = Inr \<lparr>text = t, file_name = f, score = ScoredPoint.score hit, page_count = pc,
                  chunk_index = ci, total_chunks = tc\<rparr>
       \<and> process_hits s (hit # hits) docs
           = process_hits s hits
               (docs @ [\<lparr>text = t, file_name = f, score = ScoredPoint.score hit, page_count = pc,
                         chunk_index = ci, total_chunks = tc\<rparr>])
       \<and> (map_of pl ''metadata'' = None \<longrightarrow> md = [])
       \<and> (map_of md ''file_name'' = None \<longrightarrow> f = ''Unknown'')
       \<and> (map_of md ''page_count'' = None \<longrightarrow> pc = None)
       \<and> (map_of pl ''chunk_index'' = None \<longrightarrow> ci = None)
       \<and> (map_of pl ''total_chunks'' = None \<longrightarrow> tc = None)"
proof -
  have d: "make_document s hit
           = Inr \<lparr>text = t, file_name = f, score = ScoredPoint.score hit, page_count = pc,
                  chunk_index = ci, total_chunks = tc\<rparr>"
    using assms by (simp add: make_document_def Let_def)
  have p: "process_hits s (hit # hits) docs
           = process_hits s hits
               (docs @ [\<lparr>text = t, file_name = f, score = ScoredPoint.score hit, page_count = pc,
                         chunk_index = ci, total_chunks = tc\<rparr>])"
    by (simp add: d)
  have m: "map_of pl ''metadata'' = None \<longrightarrow> md = []"
    using assms(4) by (auto simp: dict_get_def)
  have fn: "map_of md ''file_name'' = None \<longrightarrow> f = ''Unknown''"
    using assms(5,6) by (auto simp: dict_get_def)
  have pcn: "map_of md ''page_count'' = None \<longrightarrow> pc = None"
    using assms(7) by (auto simp: dict_get_def validate_optional_int_def)
  have cin: "map_of pl ''chunk_index'' = None \<longrightarrow> ci = None"
    using assms(8) by (auto simp: dict_get_def validate_optional_int_def)
  have tcn: "map_of pl ''total_chunks'' = None \<longrightarrow> tc = None"
    using assms(9) by (auto simp: dict_get_def validate_optional_int_def)
  from d p m fn pcn cin tcn show ?thesis by blast
qed

theorem defaults_for_absent_fields_witness:
  "payload bare_hit = Some [(''text'', PStr ''beta'')]
   \<and> map_of [(''text'', PStr ''beta'')] ''text'' = Some (PStr ''beta'')
   \<and> map_of [(''text'', PStr ''beta'')] ''metadata'' = None
   \<and> validate_str (services_of []) (PStr ''beta'') = Some ''beta''
   \<and> make_document (services_of []) bare_hit
       = Inr \<lparr>text = ''beta'', file_name = ''Unknown'', score = 8 / 10, page_count = None,
              chunk_index = None, total_chunks = None\<rparr>"
proof -
  let ?s = "services_of []"
  let ?pl = "[(''text'', PStr ''beta'')]"
  have h1: "payload bare_hit = Some ?pl" by (simp add: bare_hit_def)
  have h2: "map_of ?pl ''text'' = Some (PStr ''beta'')" by simp
  have h3: "validate_str ?s (PStr ''beta'') = Some ''beta''"
    by (simp add: services_of_simps strict_str_def)
  have h4: "dict_get ?pl ''metadata'' (PDict []) = PDict []" by (simp add: dict_get_def)
  have h5: "validate_str ?s (dict_get [] ''file_name'' (PStr ''Unknown'')) = Some ''Unknown''"
    by (simp add: services_of_simps strict_str_def dict_get_def)
  have h6: "validate_str ?s (PStr ''Unknown'') = Some ''Unknown''"
    by (simp add: services_of_simps strict_str_def)
  have h7: "validate_optional_int ?s (dict_get [] ''page_count'' PNone) = Some None"
    by (simp add: validate_optional_int_def dict_get_def)
  have h8: "validate_optional_int ?s (dict_get ?pl ''chunk_index'' PNone) = Some None"
    by (simp add: validate_optional_int_def dict_get_def)
  have h9: "validate_optional_int ?s (dict_get ?pl ''total_chunks'' PNone) = Some None"
    by (simp add: validate_optional_int_def dict_get_def)
  have sc: "ScoredPoint.score bare_hit = 8 / 10" by (simp add: bare_hit_def)
  have n: "map_of ?pl ''metadata'' = None" by simp
  from defaults_for_absent_fields[OF h1 h2 h3 h4 h5 h6 h7 h8 h9] sc
  have "make_document ?s bare_hit
       = Inr \<lparr>text = ''beta'', file_name = ''Unknown'', score = 8 / 10, page_count = None,
              chunk_index = None, total_chunks = None\<rparr>"
    by simp
  with h1 h2 h3 n show ?thesis by blast
qed

text \<open>
  C10 as the specification states it does not hold for a hit that has its text and no
  metadata but a chunk index
  that is not a number: the validation error is not caught for the hit, and the request
  ends with status 500.
\<close>

theorem defaults_for_absent_fields_counterexample:
  "payload mistyped_hit = Some [(''text'', PStr ''delta''), (''chunk_index'', PStr ''first'')]
   \<and> map_of [(''text'', PStr ''delta''), (''chunk_index'', PStr ''first'')] ''text''
        = Some (PStr ''delta'')
   \<and> map_of [(''text'', PStr ''delta''), (''chunk_index'', PStr ''first'')] ''metadata'' = None
   \<and> make_document (services_of [mistyped_hit]) mistyped_hit = Inl ValidationError
   \<and> retrieve_docs (services_of [mistyped_hit]) request0
        = Inl \<lparr>status_code = 500, detail = Internal_server_error\<rparr>"
proof -
  have r: "retrieve_docs (services_of [mistyped_hit]) request0
        = Inl \<lparr>status_code = 500, detail = Internal_server_error\<rparr>"
    by (simp add: retrieve_docs_def retrieve_body_def services_of_simps request0_simps
        make_document_mistyped Let_def)
  have p: "payload mistyped_hit = Some [(''text'', PStr ''delta''), (''chunk_index'', PStr ''first'')]"
    by (simp add: mistyped_hit_def)
  from r p make_document_mistyped[of "[mistyped_hit]"] show ?thesis by simp
qed

end
